theory Spec2Isabelle
  imports Main "HOL-Library.Word"
begin

section \<open>JavaScript values\<close>

text \<open>
  A JavaScript string is a sequence of 16-bit code units. String literals of the
  source are written \<open>js ''...''\<close>.
\<close>

type_synonym code_unit = "16 word"

type_synonym jsstring = "code_unit list"

definition js :: "string \<Rightarrow> jsstring" where
  "js s = map (\<lambda>c. of_nat (of_char c)) s"

text \<open>
  The values that flow through the SDK: what \<open>JSON.parse\<close> can build, and
  \<open>undefined\<close>. The methods of the SDK never compute with a number: the number
  type is the parameter \<open>'n\<close>, and the conversions of the language that touch
  numbers (\<open>ToBoolean\<close>, the finiteness test and \<open>Number::toString\<close> used by
  \<open>JSON.stringify\<close> and by template literals, \<open>StringToNumber\<close> used by
  \<open>JSON.parse\<close>) are handed to them. The section on numbers below gives the
  numbers of the language and these conversions. An object is its list of own
  properties in property order.
\<close>

datatype 'n jsval =
    JUndefined
  | JNull
  | JBool bool
  | JNum 'n
  | JStr jsstring
  | JArr "'n jsval list"
  | JObj "(jsstring \<times> 'n jsval) list"

text \<open>What a \<open>throw\<close> can carry, as far as the SDK distinguishes it.\<close>

datatype 'n exn =
    SyntaxError
  | TypeError
  | Error string
  | ErrorOf "'n jsval"
  | Thrown "'n jsval"

text \<open>
  The settled state of the promise an \<open>async\<close> method returns; \<open>ResolvedThis\<close> is
  a promise resolved with the SDK instance itself (\<open>return this\<close>).
\<close>

datatype 'n promise = Resolved "'n jsval" | ResolvedThis | Rejected "'n exn"

text \<open>\<open>ToBoolean\<close> of the language; \<open>nb\<close> decides numbers (false for 0 and NaN).\<close>

fun ToBoolean :: "('n \<Rightarrow> bool) \<Rightarrow> 'n jsval \<Rightarrow> bool" where
  "ToBoolean nb JUndefined = False"
| "ToBoolean nb JNull = False"
| "ToBoolean nb (JBool b) = b"
| "ToBoolean nb (JNum n) = nb n"
| "ToBoolean nb (JStr s) = (s \<noteq> [])"
| "ToBoolean nb (JArr vs) = True"
| "ToBoolean nb (JObj ps) = True"

text \<open>
  The property read \<open>data.hash\<close>: a TypeError on \<open>null\<close> and \<open>undefined\<close>, the own
  property of an object, and \<open>undefined\<close> everywhere else (no prototype of the
  language has a property of that name).
\<close>

fun get_hash :: "'n jsval \<Rightarrow> 'n exn + 'n jsval" where
  "get_hash JUndefined = Inl TypeError"
| "get_hash JNull = Inl TypeError"
| "get_hash (JObj ps) = Inr (case map_of ps (js ''hash'') of None \<Rightarrow> JUndefined | Some v \<Rightarrow> v)"
| "get_hash v = Inr JUndefined"

section \<open>JSON text\<close>

text \<open>
  \<open>serialize\<close> and \<open>deserialize\<close> of the SDK are \<open>JSON.stringify\<close> and \<open>JSON.parse\<close>
  of the language. This section is their grammar (ECMA-404) and their algorithms
  (ECMA-262, \<open>SerializeJSONProperty\<close>, \<open>QuoteJSONString\<close>, \<open>JSON.parse\<close>) on the
  values above: a lexer, a parser over its tokens, and the printer.
\<close>

subsection \<open>Lexical grammar\<close>

definition is_ws :: "code_unit \<Rightarrow> bool" where
  "is_ws c = (c = 0x20 \<or> c = 0x09 \<or> c = 0x0A \<or> c = 0x0D)"

definition is_digit :: "code_unit \<Rightarrow> bool" where
  "is_digit c = (0x30 \<le> c \<and> c \<le> 0x39)"

definition hex_value :: "code_unit \<Rightarrow> nat option" where
  "hex_value c =
     (if 0x30 \<le> c \<and> c \<le> 0x39 then Some (unat c - 48)
      else if 0x41 \<le> c \<and> c \<le> 0x46 then Some (unat c - 55)
      else if 0x61 \<le> c \<and> c \<le> 0x66 then Some (unat c - 87)
      else None)"

text \<open>
  The character after a backslash in a single-character escape (quote, backslash,
  slash, b, f, n, r, t) and the code unit it denotes.
\<close>

definition unescape :: "code_unit \<Rightarrow> code_unit option" where
  "unescape e =
     (if e = 0x22 then Some 0x22
      else if e = 0x5C then Some 0x5C
      else if e = 0x2F then Some 0x2F
      else if e = 0x62 then Some 0x08
      else if e = 0x66 then Some 0x0C
      else if e = 0x6E then Some 0x0A
      else if e = 0x72 then Some 0x0D
      else if e = 0x74 then Some 0x09
      else None)"

definition unit_then :: "code_unit \<Rightarrow> (jsstring \<times> jsstring) option \<Rightarrow> (jsstring \<times> jsstring) option" where
  "unit_then c r = (case r of None \<Rightarrow> None | Some (s, rest) \<Rightarrow> Some (c # s, rest))"

text \<open>
  A string after its opening quote: the code units it denotes and the text after
  the closing quote. A control character, a bad escape or the end of the text
  before the closing quote is an error.
\<close>

fun scan_string :: "jsstring \<Rightarrow> (jsstring \<times> jsstring) option" where
  "scan_string [] = None"
| "scan_string (c # cs) =
     (if c = 0x22 then Some ([], cs)
      else if c = 0x5C then
        (case cs of
           [] \<Rightarrow> None
         | e # r \<Rightarrow>
             if e = 0x75 then
               (case r of
                  h1 # h2 # h3 # h4 # r' \<Rightarrow>
                    (case (hex_value h1, hex_value h2, hex_value h3, hex_value h4) of
                       (Some a, Some b, Some c', Some d) \<Rightarrow>
                         unit_then (of_nat (((a * 16 + b) * 16 + c') * 16 + d)) (scan_string r')
                     | _ \<Rightarrow> None)
                | _ \<Rightarrow> None)
             else
               (case unescape e of
                  None \<Rightarrow> None
                | Some u \<Rightarrow> unit_then u (scan_string r)))
      else if c < 0x20 then None
      else unit_then c (scan_string cs))"

text \<open>
  A number: an optional minus, an integer part without a leading zero, an optional
  fraction and an optional exponent. Each part yields its text and what follows.
\<close>

definition scan_minus :: "jsstring \<Rightarrow> jsstring \<times> jsstring" where
  "scan_minus cs =
     (case cs of
        [] \<Rightarrow> ([], cs)
      | c # r \<Rightarrow> if c = 0x2D then ([c], r) else ([], cs))"

definition scan_int :: "jsstring \<Rightarrow> (jsstring \<times> jsstring) option" where
  "scan_int cs =
     (case cs of
        [] \<Rightarrow> None
      | c # r \<Rightarrow>
          if c = 0x30 then Some ([c], r)
          else if is_digit c then Some (c # takeWhile is_digit r, dropWhile is_digit r)
          else None)"

definition scan_frac :: "jsstring \<Rightarrow> (jsstring \<times> jsstring) option" where
  "scan_frac cs =
     (case cs of
        [] \<Rightarrow> Some ([], cs)
      | c # r \<Rightarrow>
          if c = 0x2E then
            (if takeWhile is_digit r = [] then None
             else Some (c # takeWhile is_digit r, dropWhile is_digit r))
          else Some ([], cs))"

definition scan_sign :: "jsstring \<Rightarrow> jsstring \<times> jsstring" where
  "scan_sign cs =
     (case cs of
        [] \<Rightarrow> ([], cs)
      | c # r \<Rightarrow> if c = 0x2B \<or> c = 0x2D then ([c], r) else ([], cs))"

definition scan_exp :: "jsstring \<Rightarrow> (jsstring \<times> jsstring) option" where
  "scan_exp cs =
     (case cs of
        [] \<Rightarrow> Some ([], cs)
      | c # r \<Rightarrow>
          if c = 0x65 \<or> c = 0x45 then
            (case scan_sign r of
               (sg, r') \<Rightarrow>
                 if takeWhile is_digit r' = [] then None
                 else Some (c # sg @ takeWhile is_digit r', dropWhile is_digit r'))
          else Some ([], cs))"

definition scan_number :: "jsstring \<Rightarrow> (jsstring \<times> jsstring) option" where
  "scan_number cs =
     (case scan_minus cs of
        (m, r0) \<Rightarrow>
          (case scan_int r0 of
             None \<Rightarrow> None
           | Some (i, r1) \<Rightarrow>
               (case scan_frac r1 of
                  None \<Rightarrow> None
                | Some (f, r2) \<Rightarrow>
                    (case scan_exp r2 of
                       None \<Rightarrow> None
                     | Some (e, r3) \<Rightarrow> Some (m @ i @ f @ e, r3)))))"

text \<open>Both scanners consume something, which is what lets the lexer recurse.\<close>

lemma unit_then_Some:
  "unit_then c x = Some (s, r) \<longleftrightarrow> (\<exists>s'. x = Some (s', r) \<and> s = c # s')"
  by (auto simp: unit_then_def split: option.splits)

lemma scan_string_step:
  "scan_string (c # cs) = Some (s, r) \<Longrightarrow>
     r = cs \<or> (\<exists>ys s'. length ys \<le> length cs \<and> scan_string ys = Some (s', r))"
  by (auto simp: unit_then_Some split: if_splits list.splits option.splits)

lemma scan_string_shorter:
  "scan_string cs = Some (s, r) \<Longrightarrow> length r < length cs"
proof (induction cs arbitrary: s r rule: length_induct)
  case (1 cs)
  show ?case
  proof (cases cs)
    case Nil
    then show ?thesis using "1.prems" by simp
  next
    case (Cons c cs')
    then consider "r = cs'"
      | ys s' where "length ys \<le> length cs'" "scan_string ys = Some (s', r)"
      using "1.prems" scan_string_step by blast
    then show ?thesis
    proof cases
      case 1
      then show ?thesis using Cons by simp
    next
      case 2
      then have "length r < length ys"
        using "1.IH" Cons by simp
      then show ?thesis using 2 Cons by simp
    qed
  qed
qed

lemma scan_int_splits: "scan_int cs = Some (i, r) \<Longrightarrow> cs = i @ r \<and> i \<noteq> []"
  by (auto simp: scan_int_def split: list.splits if_splits)

lemma scan_frac_splits: "scan_frac cs = Some (f, r) \<Longrightarrow> cs = f @ r"
  by (auto simp: scan_frac_def split: list.splits if_splits)

lemma scan_sign_splits: "scan_sign cs = (sg, r) \<Longrightarrow> cs = sg @ r"
  by (auto simp: scan_sign_def split: list.splits if_splits)

lemma scan_exp_splits: "scan_exp cs = Some (e, r) \<Longrightarrow> cs = e @ r"
  by (auto simp: scan_exp_def dest!: scan_sign_splits split: list.splits if_splits prod.splits)

lemma scan_minus_splits: "scan_minus cs = (m, r) \<Longrightarrow> cs = m @ r"
  by (auto simp: scan_minus_def split: list.splits if_splits)

lemma scan_number_splits:
  "scan_number cs = Some (lit, r) \<Longrightarrow> cs = lit @ r \<and> lit \<noteq> []"
  by (auto simp: scan_number_def
      dest!: scan_minus_splits scan_int_splits scan_frac_splits scan_exp_splits
      split: option.splits prod.splits)

lemma scan_number_shorter:
  "scan_number cs = Some (lit, r) \<Longrightarrow> length r < length cs"
  using scan_number_splits [of cs lit r] by (cases lit) auto

datatype token =
    TLBrace | TRBrace | TLBracket | TRBracket | TColon | TComma
  | TNull | TTrue | TFalse
  | TNumber jsstring
  | TString jsstring

definition token_then :: "token \<Rightarrow> token list option \<Rightarrow> token list option" where
  "token_then t r = (case r of None \<Rightarrow> None | Some ts \<Rightarrow> Some (t # ts))"

text \<open>The tokens of a text, white space dropped; \<open>None\<close> when some part is no token.\<close>

function lex :: "jsstring \<Rightarrow> token list option" where
  "lex [] = Some []"
| "lex (c # cs) =
     (if is_ws c then lex cs
      else if c = 0x7B then token_then TLBrace (lex cs)
      else if c = 0x7D then token_then TRBrace (lex cs)
      else if c = 0x5B then token_then TLBracket (lex cs)
      else if c = 0x5D then token_then TRBracket (lex cs)
      else if c = 0x3A then token_then TColon (lex cs)
      else if c = 0x2C then token_then TComma (lex cs)
      else if c = 0x22 then
        (case scan_string cs of
           None \<Rightarrow> None
         | Some (s, r) \<Rightarrow> token_then (TString s) (lex r))
      else if c = 0x2D \<or> is_digit c then
        (case scan_number (c # cs) of
           None \<Rightarrow> None
         | Some (lit, r) \<Rightarrow> token_then (TNumber lit) (lex r))
      else if take 4 (c # cs) = js ''null'' then token_then TNull (lex (drop 3 cs))
      else if take 4 (c # cs) = js ''true'' then token_then TTrue (lex (drop 3 cs))
      else if take 5 (c # cs) = js ''false'' then token_then TFalse (lex (drop 4 cs))
      else None)"
  by pat_completeness auto
termination
  by (relation "measure length")
    (auto dest: scan_string_shorter scan_number_shorter)

subsection \<open>Own properties in property order\<close>

text \<open>
  \<open>JSON.parse\<close> defines the members of an object one after the other as own
  properties. A name that is already there keeps its place and gets the new value;
  a new name that is an array index (a canonical numeric string below \<open>2^32 - 1\<close>)
  goes among the array indices in ascending order, which come first; any other new
  name goes last.
\<close>

definition digits_value :: "jsstring \<Rightarrow> nat" where
  "digits_value ds = foldl (\<lambda>n d. 10 * n + (unat d - 48)) 0 ds"

definition array_index :: "jsstring \<Rightarrow> nat option" where
  "array_index k =
     (if k \<noteq> [] \<and> list_all is_digit k \<and> (k = [0x30] \<or> hd k \<noteq> 0x30) \<and> digits_value k < 4294967295
      then Some (digits_value k) else None)"

fun insert_index :: "nat \<Rightarrow> jsstring \<times> 'v \<Rightarrow> (jsstring \<times> 'v) list \<Rightarrow> (jsstring \<times> 'v) list" where
  "insert_index i p [] = [p]"
| "insert_index i p (q # ps) =
     (case array_index (fst q) of
        None \<Rightarrow> p # q # ps
      | Some j \<Rightarrow> if j < i then q # insert_index i p ps else p # q # ps)"

definition define_property :: "jsstring \<Rightarrow> 'v \<Rightarrow> (jsstring \<times> 'v) list \<Rightarrow> (jsstring \<times> 'v) list" where
  "define_property k v ps =
     (if k \<in> set (map fst ps) then map (\<lambda>(k', v'). if k' = k then (k', v) else (k', v')) ps
      else
        (case array_index k of
           None \<Rightarrow> ps @ [(k, v)]
         | Some i \<Rightarrow> insert_index i (k, v) ps))"

definition define_properties ::
  "(jsstring \<times> 'v) list \<Rightarrow> (jsstring \<times> 'v) list \<Rightarrow> (jsstring \<times> 'v) list" where
  "define_properties acc ps = foldl (\<lambda>acc (k, v). define_property k v acc) acc ps"

text \<open>
  A list of properties is in property order when defining them one after the other
  gives the list back: it is what enumerating the own properties of an object yields.
\<close>

definition property_order :: "(jsstring \<times> 'v) list \<Rightarrow> bool" where
  "property_order ps = (define_properties [] ps = ps)"

subsection \<open>Syntactic grammar\<close>

text \<open>
  A value at the head of the tokens, and the tokens after it. \<open>parse_elements\<close>
  reads the elements of an array after its first bracket, \<open>parse_members\<close> the
  members of an object; \<open>stn\<close> is \<open>StringToNumber\<close>. A value consumes at least one
  token; the test on the lengths says so where the recursion needs it.
\<close>

function parse_value :: "(jsstring \<Rightarrow> 'n) \<Rightarrow> token list \<Rightarrow> ('n jsval \<times> token list) option"
  and parse_elements :: "(jsstring \<Rightarrow> 'n) \<Rightarrow> 'n jsval list \<Rightarrow> token list \<Rightarrow> ('n jsval \<times> token list) option"
  and parse_members :: "(jsstring \<Rightarrow> 'n) \<Rightarrow> (jsstring \<times> 'n jsval) list \<Rightarrow> token list \<Rightarrow> ('n jsval \<times> token list) option"
  where
  "parse_value stn [] = None"
| "parse_value stn (t # ts) =
     (case t of
        TNull \<Rightarrow> Some (JNull, ts)
      | TTrue \<Rightarrow> Some (JBool True, ts)
      | TFalse \<Rightarrow> Some (JBool False, ts)
      | TNumber lit \<Rightarrow> Some (JNum (stn lit), ts)
      | TString s \<Rightarrow> Some (JStr s, ts)
      | TLBracket \<Rightarrow> if take 1 ts = [TRBracket] then Some (JArr [], drop 1 ts) else parse_elements stn [] ts
      | TLBrace \<Rightarrow> if take 1 ts = [TRBrace] then Some (JObj [], drop 1 ts) else parse_members stn [] ts
      | _ \<Rightarrow> None)"
| "parse_elements stn acc ts =
     (case parse_value stn ts of
        None \<Rightarrow> None
      | Some (v, r) \<Rightarrow>
          if length r < length ts then
            (case r of
               TComma # r' \<Rightarrow> parse_elements stn (acc @ [v]) r'
             | TRBracket # r' \<Rightarrow> Some (JArr (acc @ [v]), r')
             | _ \<Rightarrow> None)
          else None)"
| "parse_members stn acc ts =
     (case ts of
        TString k # TColon # ts' \<Rightarrow>
          (case parse_value stn ts' of
             None \<Rightarrow> None
           | Some (v, r) \<Rightarrow>
               if length r < length ts' then
                 (case r of
                    TComma # r' \<Rightarrow> parse_members stn (define_property k v acc) r'
                  | TRBrace # r' \<Rightarrow> Some (JObj (define_property k v acc), r')
                  | _ \<Rightarrow> None)
               else None)
      | _ \<Rightarrow> None)"
  by pat_completeness auto
termination
  by (relation "measure (\<lambda>x. case x of
         Inl (stn, ts) \<Rightarrow> 2 * length ts
       | Inr (Inl (stn, acc, ts)) \<Rightarrow> 2 * length ts + 1
       | Inr (Inr (stn, acc, ts)) \<Rightarrow> 2 * length ts + 1)")
    auto

text \<open>\<open>JSON.parse(text)\<close>: the one value the whole text denotes, or a SyntaxError.\<close>

definition JSON_parse :: "(jsstring \<Rightarrow> 'n) \<Rightarrow> jsstring \<Rightarrow> 'n exn + 'n jsval" where
  "JSON_parse stn text =
     (case lex text of
        None \<Rightarrow> Inl SyntaxError
      | Some ts \<Rightarrow>
          (case parse_value stn ts of
             Some (v, []) \<Rightarrow> Inr v
           | _ \<Rightarrow> Inl SyntaxError))"

subsection \<open>The printer\<close>

definition hex_digit :: "nat \<Rightarrow> code_unit" where
  "hex_digit d = of_nat (if d < 10 then 48 + d else 87 + d)"

definition unicode_escape :: "code_unit \<Rightarrow> jsstring" where
  "unicode_escape c =
     [0x5C, 0x75, hex_digit (unat c div 4096), hex_digit (unat c div 256 mod 16),
      hex_digit (unat c div 16 mod 16), hex_digit (unat c mod 16)]"

definition is_high_surrogate :: "code_unit \<Rightarrow> bool" where
  "is_high_surrogate c = (0xD800 \<le> c \<and> c \<le> 0xDBFF)"

definition is_low_surrogate :: "code_unit \<Rightarrow> bool" where
  "is_low_surrogate c = (0xDC00 \<le> c \<and> c \<le> 0xDFFF)"

text \<open>
  One code unit inside a quoted string: the short escapes, a \<open>u\<close> escape for the
  other control characters and for a surrogate that is not part of a pair, and
  the unit itself otherwise.
\<close>

definition quote_unit :: "code_unit \<Rightarrow> jsstring" where
  "quote_unit c =
     (if c = 0x08 then [0x5C, 0x62]
      else if c = 0x09 then [0x5C, 0x74]
      else if c = 0x0A then [0x5C, 0x6E]
      else if c = 0x0C then [0x5C, 0x66]
      else if c = 0x0D then [0x5C, 0x72]
      else if c = 0x22 then [0x5C, 0x22]
      else if c = 0x5C then [0x5C, 0x5C]
      else if c < 0x20 \<or> is_high_surrogate c \<or> is_low_surrogate c then unicode_escape c
      else [c])"

fun quote_units :: "jsstring \<Rightarrow> jsstring" where
  "quote_units [] = []"
| "quote_units [c] = quote_unit c"
| "quote_units (c # d # cs) =
     (if is_high_surrogate c \<and> is_low_surrogate d then c # d # quote_units cs
      else quote_unit c @ quote_units (d # cs))"

definition QuoteJSONString :: "jsstring \<Rightarrow> jsstring" where
  "QuoteJSONString s = 0x22 # quote_units s @ [0x22]"

fun commas :: "jsstring list \<Rightarrow> jsstring" where
  "commas [] = []"
| "commas [t] = t"
| "commas (t # u # ts) = t @ 0x2C # commas (u # ts)"

text \<open>
  \<open>JSON.stringify(value)\<close> with no replacer and no indentation: \<open>None\<close> is the
  result \<open>undefined\<close>. \<open>fin\<close> tells the finite numbers, which print as
  \<open>Number::toString\<close> (\<open>nts\<close>) gives them; the others print as \<open>null\<close>. In an
  array \<open>undefined\<close> prints as \<open>null\<close>; in an object a property whose value is
  \<open>undefined\<close> is left out.
\<close>

fun JSON_stringify :: "('n \<Rightarrow> bool) \<Rightarrow> ('n \<Rightarrow> jsstring) \<Rightarrow> 'n jsval \<Rightarrow> jsstring option"
  and stringify_elements :: "('n \<Rightarrow> bool) \<Rightarrow> ('n \<Rightarrow> jsstring) \<Rightarrow> 'n jsval list \<Rightarrow> jsstring list"
  and stringify_members :: "('n \<Rightarrow> bool) \<Rightarrow> ('n \<Rightarrow> jsstring) \<Rightarrow> (jsstring \<times> 'n jsval) list \<Rightarrow> jsstring list"
  where
  "JSON_stringify fin nts JUndefined = None"
| "JSON_stringify fin nts JNull = Some (js ''null'')"
| "JSON_stringify fin nts (JBool b) = Some (if b then js ''true'' else js ''false'')"
| "JSON_stringify fin nts (JNum n) = Some (if fin n then nts n else js ''null'')"
| "JSON_stringify fin nts (JStr s) = Some (QuoteJSONString s)"
| "JSON_stringify fin nts (JArr vs) = Some (0x5B # commas (stringify_elements fin nts vs) @ [0x5D])"
| "JSON_stringify fin nts (JObj ps) = Some (0x7B # commas (stringify_members fin nts ps) @ [0x7D])"
| "stringify_elements fin nts [] = []"
| "stringify_elements fin nts (v # vs) =
     (case JSON_stringify fin nts v of None \<Rightarrow> js ''null'' | Some t \<Rightarrow> t) # stringify_elements fin nts vs"
| "stringify_members fin nts [] = []"
| "stringify_members fin nts ((k, v) # ps) =
     (case JSON_stringify fin nts v of
        None \<Rightarrow> stringify_members fin nts ps
      | Some t \<Rightarrow> (QuoteJSONString k @ 0x3A # t) # stringify_members fin nts ps)"

subsection \<open>What the round trip needs of a value\<close>

text \<open>
  What the proof of the round trip needs of a value, for any number type and any
  pair of conversions: \<open>representable\<close> collects, for every number in the value
  and every object in it, the three facts about the scanner, the conversions and
  \<open>define_property\<close> that the induction uses. It is a notion of the proof and
  not of the claim; \<open>JSON_value\<close> below says which values of the language are
  meant, and that they are representable is proved.
\<close>

definition number_literal :: "jsstring \<Rightarrow> bool" where
  "number_literal t = (scan_number t = Some (t, []))"

fun representable :: "('n \<Rightarrow> bool) \<Rightarrow> ('n \<Rightarrow> jsstring) \<Rightarrow> (jsstring \<Rightarrow> 'n) \<Rightarrow> 'n jsval \<Rightarrow> bool"
  and representable_elements :: "('n \<Rightarrow> bool) \<Rightarrow> ('n \<Rightarrow> jsstring) \<Rightarrow> (jsstring \<Rightarrow> 'n) \<Rightarrow> 'n jsval list \<Rightarrow> bool"
  and representable_members :: "('n \<Rightarrow> bool) \<Rightarrow> ('n \<Rightarrow> jsstring) \<Rightarrow> (jsstring \<Rightarrow> 'n) \<Rightarrow> (jsstring \<times> 'n jsval) list \<Rightarrow> bool"
  where
  "representable fin nts stn JUndefined = False"
| "representable fin nts stn JNull = True"
| "representable fin nts stn (JBool b) = True"
| "representable fin nts stn (JNum n) = (fin n \<and> number_literal (nts n) \<and> stn (nts n) = n)"
| "representable fin nts stn (JStr s) = True"
| "representable fin nts stn (JArr vs) = representable_elements fin nts stn vs"
| "representable fin nts stn (JObj ps) = (property_order ps \<and> representable_members fin nts stn ps)"
| "representable_elements fin nts stn [] = True"
| "representable_elements fin nts stn (v # vs) =
     (representable fin nts stn v \<and> representable_elements fin nts stn vs)"
| "representable_members fin nts stn [] = True"
| "representable_members fin nts stn ((k, v) # ps) =
     (representable fin nts stn v \<and> representable_members fin nts stn ps)"

text \<open>The tokens of the text that \<open>JSON.stringify\<close> prints for a value.\<close>

fun tokens :: "('n \<Rightarrow> jsstring) \<Rightarrow> 'n jsval \<Rightarrow> token list"
  and tokens_elements :: "('n \<Rightarrow> jsstring) \<Rightarrow> 'n jsval list \<Rightarrow> token list"
  and tokens_members :: "('n \<Rightarrow> jsstring) \<Rightarrow> (jsstring \<times> 'n jsval) list \<Rightarrow> token list"
  where
  "tokens nts JUndefined = []"
| "tokens nts JNull = [TNull]"
| "tokens nts (JBool b) = [if b then TTrue else TFalse]"
| "tokens nts (JNum n) = [TNumber (nts n)]"
| "tokens nts (JStr s) = [TString s]"
| "tokens nts (JArr vs) = TLBracket # tokens_elements nts vs @ [TRBracket]"
| "tokens nts (JObj ps) = TLBrace # tokens_members nts ps @ [TRBrace]"
| "tokens_elements nts [] = []"
| "tokens_elements nts [v] = tokens nts v"
| "tokens_elements nts (v # w # vs) = tokens nts v @ TComma # tokens_elements nts (w # vs)"
| "tokens_members nts [] = []"
| "tokens_members nts [(k, v)] = TString k # TColon # tokens nts v"
| "tokens_members nts ((k, v) # q # ps) =
     TString k # TColon # tokens nts v @ TComma # tokens_members nts (q # ps)"

definition tokens_then :: "token list \<Rightarrow> token list option \<Rightarrow> token list option" where
  "tokens_then ts r = (case r of None \<Rightarrow> None | Some us \<Rightarrow> Some (ts @ us))"

text \<open>What may follow a value in printed text: nothing, a comma or a closing bracket.\<close>

definition stops :: "jsstring \<Rightarrow> bool" where
  "stops rest = (case rest of [] \<Rightarrow> True | c # _ \<Rightarrow> c = 0x2C \<or> c = 0x5D \<or> c = 0x7D)"

section \<open>Numbers\<close>

text \<open>
  A number of the language that is neither \<open>NaN\<close> nor infinite is written, by
  \<open>Number::toString\<close>, with a sign and integers \<open>n\<close>, \<open>k\<close> and \<open>s\<close>: \<open>s\<close> has
  \<open>k\<close> decimal digits, \<open>k\<close> is as small as possible, and the number is
  \<open>s * 10 ^ (n - k)\<close>. \<open>Finite neg ds n\<close> is that number: \<open>neg\<close> its sign, \<open>ds\<close>
  the digits of \<open>s\<close> from the most significant one, \<open>n\<close> the exponent; zero has no
  digits, and \<open>Finite True [] 0\<close> is the negative zero. In \<open>number_value\<close> is what
  makes \<open>ds\<close> and \<open>n\<close> the ones \<open>Number::toString\<close> takes: decimal digits, the
  first not zero (\<open>s\<close> has \<open>k\<close> digits), the last not zero (\<open>k\<close> is as small as
  possible).

  A double has at most 17 such digits and a bounded exponent. The model has no
  such bound: every decimal is a number, and \<open>StringToNumber\<close> gives a literal the
  decimal it denotes, where the language rounds a literal with more digits than a
  double holds to the nearest double.
\<close>

datatype number = NaN | Infinity bool | Finite bool "nat list" int

definition number_value :: "number \<Rightarrow> bool" where
  "number_value x =
     (case x of
        Finite neg ds n \<Rightarrow>
          if ds = [] then n = 0
          else list_all (\<lambda>d. d < 10) ds \<and> hd ds \<noteq> 0 \<and> last ds \<noteq> 0
      | _ \<Rightarrow> True)"

definition negative_zero :: number where
  "negative_zero = Finite True [] 0"

text \<open>\<open>ToBoolean\<close> of a number: false for zero and \<open>NaN\<close>. The finite numbers.\<close>

definition Number_toBoolean :: "number \<Rightarrow> bool" where
  "Number_toBoolean x = (case x of NaN \<Rightarrow> False | Infinity neg \<Rightarrow> True | Finite neg ds n \<Rightarrow> ds \<noteq> [])"

definition Number_isFinite :: "number \<Rightarrow> bool" where
  "Number_isFinite x = (case x of Finite neg ds n \<Rightarrow> True | _ \<Rightarrow> False)"

definition digit_unit :: "nat \<Rightarrow> code_unit" where
  "digit_unit d = of_nat (48 + d)"

definition unit_digit :: "code_unit \<Rightarrow> nat" where
  "unit_digit c = unat c - 48"

definition digits_text :: "nat list \<Rightarrow> jsstring" where
  "digits_text ds = map digit_unit ds"

fun decimal :: "nat \<Rightarrow> jsstring" where
  "decimal n = (if n < 10 then [of_nat (48 + n)] else decimal (n div 10) @ [of_nat (48 + n mod 10)])"

text \<open>The exponent part: \<open>e\<close>, the sign of the exponent, its absolute value in decimal.\<close>

definition exponent_text :: "int \<Rightarrow> jsstring" where
  "exponent_text e = 0x65 # (if e < 0 then 0x2D else 0x2B) # decimal (nat \<bar>e\<bar>)"

text \<open>
  \<open>Number::toString(x)\<close> in radix 10 (ECMA-262, 6.1.6.1.20): \<open>NaN\<close>, \<open>0\<close> for both
  zeros, a minus sign for a negative number, \<open>Infinity\<close>, and for the finite rest,
  with \<open>k\<close> the number of digits: the digits followed by \<open>n - k\<close> zeros when
  \<open>k \<le> n \<le> 21\<close>; the first \<open>n\<close> digits, a point and the other digits when
  \<open>0 < n \<le> 21\<close>; \<open>0.\<close>, \<open>- n\<close> zeros and the digits when \<open>- 6 < n \<le> 0\<close>; and the
  exponent notation otherwise, with a point after the first digit when there are
  more.
\<close>

definition Number_toString :: "number \<Rightarrow> jsstring" where
  "Number_toString x =
     (case x of
        NaN \<Rightarrow> js ''NaN''
      | Infinity neg \<Rightarrow> if neg then js ''-Infinity'' else js ''Infinity''
      | Finite neg ds n \<Rightarrow>
          if ds = [] then js ''0''
          else
            (if neg then [0x2D] else []) @
            (let k = int (length ds) in
             if k \<le> n \<and> n \<le> 21 then digits_text ds @ replicate (nat (n - k)) 0x30
             else if 0 < n \<and> n \<le> 21 then
               digits_text (take (nat n) ds) @ 0x2E # digits_text (drop (nat n) ds)
             else if - 6 < n \<and> n \<le> 0 then
               0x30 # 0x2E # replicate (nat (- n)) 0x30 @ digits_text ds
             else if k = 1 then digits_text ds @ exponent_text (n - 1)
             else digit_unit (hd ds) # 0x2E # digits_text (tl ds) @ exponent_text (n - 1)))"

text \<open>
  The number with the digits \<open>ds\<close>, of which the first \<open>n\<close> stand before the point
  (\<open>0.ds * 10 ^ n\<close>): the zeros at both ends are no digits of \<open>s\<close>.
\<close>

definition normalise :: "bool \<Rightarrow> nat list \<Rightarrow> int \<Rightarrow> number" where
  "normalise neg ds n =
     (let significant = rev (dropWhile (\<lambda>d. d = 0) (rev (dropWhile (\<lambda>d. d = 0) ds))) in
      if significant = [] then Finite neg [] 0
      else Finite neg significant (n - int (length (takeWhile (\<lambda>d. d = 0) ds))))"

text \<open>The value of the exponent part of a literal, 0 when there is none.\<close>

definition literal_exponent :: "jsstring \<Rightarrow> int" where
  "literal_exponent r =
     (case r of
        [] \<Rightarrow> 0
      | c # r' \<Rightarrow>
          if c = 0x65 \<or> c = 0x45 then
            (case r' of
               [] \<Rightarrow> 0
             | s # ds \<Rightarrow>
                 if s = 0x2D then - int (digits_value ds)
                 else if s = 0x2B then int (digits_value ds)
                 else int (digits_value r'))
          else 0)"

text \<open>
  \<open>StringToNumber\<close> on a JSON number literal, which is what \<open>JSON.parse\<close> applies it
  to: the sign, the digits before and after the point, and the exponent give the
  decimal the literal denotes. \<open>-0\<close> denotes the negative zero.
\<close>

definition StringToNumber_literal :: "jsstring \<Rightarrow> number" where
  "StringToNumber_literal t =
     (let neg = (take 1 t = [0x2D]);
          body = (if neg then drop 1 t else t);
          ip = takeWhile is_digit body;
          r1 = dropWhile is_digit body;
          dot = (take 1 r1 = [0x2E]);
          fp = (if dot then takeWhile is_digit (drop 1 r1) else []);
          r2 = (if dot then dropWhile is_digit (drop 1 r1) else r1)
      in normalise neg (map unit_digit (ip @ fp)) (int (length ip) + literal_exponent r2))"

subsection \<open>The values of JSON\<close>

text \<open>
  The own property keys of an object come in this order (\<open>OrdinaryOwnPropertyKeys\<close>):
  the array indices in ascending order, then the other names in the order of their
  creation. \<open>key_before k k'\<close>: the name \<open>k\<close> can stand before the name \<open>k'\<close>.
\<close>

definition key_before :: "jsstring \<Rightarrow> jsstring \<Rightarrow> bool" where
  "key_before k k' =
     (case array_index k' of
        None \<Rightarrow> True
      | Some j \<Rightarrow> (case array_index k of None \<Rightarrow> False | Some i \<Rightarrow> i < j))"

definition own_property_keys :: "jsstring list \<Rightarrow> bool" where
  "own_property_keys ks = (distinct ks \<and> sorted_wrt key_before ks)"

text \<open>
  The values of the language that JSON represents: \<open>null\<close>, the booleans, the
  strings, the finite numbers but the negative zero, and the arrays and objects of
  such values. \<open>undefined\<close>, \<open>NaN\<close> and the infinities have no JSON text, and the
  negative zero is printed as \<open>0\<close>. The properties of an object are listed as the
  language enumerates them.
\<close>

fun JSON_value :: "number jsval \<Rightarrow> bool"
  and JSON_elements :: "number jsval list \<Rightarrow> bool"
  and JSON_members :: "(jsstring \<times> number jsval) list \<Rightarrow> bool"
  where
  "JSON_value JUndefined = False"
| "JSON_value JNull = True"
| "JSON_value (JBool b) = True"
| "JSON_value (JNum x) = (Number_isFinite x \<and> number_value x \<and> x \<noteq> negative_zero)"
| "JSON_value (JStr s) = True"
| "JSON_value (JArr vs) = JSON_elements vs"
| "JSON_value (JObj ps) = (own_property_keys (map fst ps) \<and> JSON_members ps)"
| "JSON_elements [] = True"
| "JSON_elements (v # vs) = (JSON_value v \<and> JSON_elements vs)"
| "JSON_members [] = True"
| "JSON_members ((k, v) # ps) = (JSON_value v \<and> JSON_members ps)"

text \<open>The parts of a number literal: the sign, and the fraction with its point.\<close>

definition sign_text :: "bool \<Rightarrow> jsstring" where
  "sign_text neg = (if neg then [0x2D] else [])"

definition fraction_text :: "jsstring \<Rightarrow> jsstring" where
  "fraction_text fp = (if fp = [] then [] else 0x2E # fp)"

subsection \<open>Conversion to a string\<close>

text \<open>
  \<open>ToString\<close> of the language, which a template literal applies to each value it
  interpolates; \<open>nts\<close> is \<open>Number::toString\<close>. An array is converted by
  \<open>Array.prototype.join\<close>: its elements converted and separated by commas, with
  nothing for \<open>null\<close> and \<open>undefined\<close>. An object is converted by its \<open>toString\<close>
  method and then its \<open>valueOf\<close> method. The objects here have data properties
  only, none of them callable: with an own property \<open>toString\<close> the first method is
  no function, \<open>valueOf\<close> (own and no function, or inherited and returning the
  object) gives no primitive, and the conversion throws a TypeError; without one
  the inherited method answers \<open>[object Object]\<close>.
\<close>

fun ToString :: "('n \<Rightarrow> jsstring) \<Rightarrow> 'n jsval \<Rightarrow> 'n exn + jsstring"
  and join_elements :: "('n \<Rightarrow> jsstring) \<Rightarrow> 'n jsval list \<Rightarrow> 'n exn + jsstring list"
  where
  "ToString nts JUndefined = Inr (js ''undefined'')"
| "ToString nts JNull = Inr (js ''null'')"
| "ToString nts (JBool b) = Inr (if b then js ''true'' else js ''false'')"
| "ToString nts (JNum n) = Inr (nts n)"
| "ToString nts (JStr s) = Inr s"
| "ToString nts (JArr vs) =
     (case join_elements nts vs of Inl e \<Rightarrow> Inl e | Inr ts \<Rightarrow> Inr (commas ts))"
| "ToString nts (JObj ps) =
     (if js ''toString'' \<in> set (map fst ps) then Inl TypeError else Inr (js ''[object Object]''))"
| "join_elements nts [] = Inr []"
| "join_elements nts (v # vs) =
     (case (if v = JUndefined \<or> v = JNull then Inr [] else ToString nts v) of
        Inl e \<Rightarrow> Inl e
      | Inr t \<Rightarrow> (case join_elements nts vs of Inl e \<Rightarrow> Inl e | Inr ts \<Rightarrow> Inr (t # ts)))"

section \<open>The node and what it calls\<close>

text \<open>
  Every effect of a method is an event of the node's trace: a line handed to the
  logger (the template's text and the values interpolated or passed along), or a
  call of a collaborator.
\<close>

datatype log_level = LDebug | LInfo | LError

datatype 'n log_part = Txt string | Val "'n jsval"

datatype 'n event =
    Logged log_level "'n log_part list"
  | Call_isValidBlock "'n jsval"
  | Call_AddBlock "'n jsval"
  | Call_errors "'n exn"
  | Call_generateNextBlock jsstring "'n jsval"
  | Call_send jsstring "'n jsval"
  | Call_webapp_close
  | Call_consumer_close

text \<open>
  The database handle \<open>this.db\<close>: the blocks its \<open>Ledger\<close> model has stored, in
  order. The web console, the consumer and the producer are resources that are open
  or closed.
\<close>

record 'n database =
  Ledger :: "'n jsval list"

datatype resource = Open | Closed

text \<open>
  What \<open>producer.send([msg], callback)\<close> does: it throws, or it returns a value and
  the producer may call the callback later, from its own stack, with \<open>(err, res)\<close>.
\<close>

datatype 'n send_result =
    SendThrows "'n exn"
  | SendReturns "'n jsval" "('n jsval \<times> 'n jsval) option"

text \<open>
  The collaborators the SDK requires from modules that are not part of
  \<^verbatim>\<open>sdk/index.js\<close>, and the number conversions of the language. Each is a
  parameter.
  \<^item> \<open>isValidBlock(logger, data)\<close> of \<^verbatim>\<open>lib/block\<close> is handed the logger and the
    block and nothing else: it yields the lines it logs and either throws or
    returns a value.
  \<^item> \<open>generateNextBlock(organization, serializedData)\<close> of \<^verbatim>\<open>lib/block\<close> throws
    or returns the new block.
  \<^item> \<open>errors(logger, err)\<close> of \<^verbatim>\<open>lib/errors\<close> yields the lines it logs and either
    throws (\<open>Some\<close>) or returns (\<open>None\<close>).
  \<^item> \<open>db.Ledger.AddBlock(data)\<close> yields the stored blocks afterwards and, when the
    promise it returns is rejected, the reason.
  \<^item> \<open>producer.send\<close> is told the topic and the messages.
  \<^item> \<open>webapp.close()\<close> and \<open>consumer.close(callback)\<close> throw (\<open>Some\<close>) or return.
\<close>

record 'n host =
  NumberToBoolean :: "'n \<Rightarrow> bool"
  NumberIsFinite :: "'n \<Rightarrow> bool"
  NumberToString :: "'n \<Rightarrow> jsstring"
  StringToNumber :: "jsstring \<Rightarrow> 'n"
  isValidBlock :: "'n jsval \<Rightarrow> (log_level \<times> 'n log_part list) list \<times> ('n exn + 'n jsval)"
  generateNextBlock :: "jsstring \<Rightarrow> 'n jsval \<Rightarrow> 'n exn + 'n jsval"
  errors :: "'n exn \<Rightarrow> (log_level \<times> 'n log_part list) list \<times> 'n exn option"
  AddBlock :: "'n jsval \<Rightarrow> 'n jsval list \<Rightarrow> 'n jsval list \<times> 'n exn option"
  producer_send :: "jsstring \<Rightarrow> 'n jsval \<Rightarrow> 'n send_result"
  webapp_close :: "'n exn option"
  consumer_close :: "'n exn option"

text \<open>
  The SDK instance: the fields of \<open>this.configs\<close> the methods read (\<open>pending\<close> is
  \<open>configs.kafka.topics.pending\<close>), the fields \<open>start()\<close> sets (undefined before),
  the callbacks the producer still owes, and the trace of effects so far.
\<close>

record 'n sdk =
  role :: jsstring
  organization :: jsstring
  pending :: jsstring
  db :: "'n database option"
  webapp :: "resource option"
  consumer :: "resource option"
  producer :: "resource option"
  callbacks :: "('n jsval \<times> 'n jsval) list"
  trace :: "'n event list"

definition emit :: "'n sdk \<Rightarrow> 'n event list \<Rightarrow> 'n sdk" where
  "emit s evs = s\<lparr>trace := trace s @ evs\<rparr>"

definition logged :: "(log_level \<times> 'n log_part list) list \<Rightarrow> 'n event list" where
  "logged ls = map (\<lambda>(l, ps). Logged l ps) ls"

definition new_events :: "'n sdk \<Rightarrow> 'n sdk \<Rightarrow> 'n event list" where
  "new_events s s' = drop (length (trace s)) (trace s')"

section \<open>The SDK\<close>

text \<open>\<open>hasRole(r)\<close>: \<open>role === r\<close>.\<close>

definition hasRole :: "'n sdk \<Rightarrow> jsstring \<Rightarrow> bool" where
  "hasRole s r = (role s = r)"

text \<open>
  \<open>try { ... } catch(err) { errors(this.logger, err); }\<close> around the body of an
  \<open>async\<close> method: what the body throws goes to \<open>errors\<close>; when \<open>errors\<close> returns,
  the method returns \<open>undefined\<close>; when it throws, the promise is rejected.
\<close>

definition try_catch :: "'n host \<Rightarrow> ('n exn + 'n jsval) \<times> 'n sdk \<Rightarrow> 'n promise \<times> 'n sdk" where
  "try_catch h body =
     (case body of
        (Inr v, s) \<Rightarrow> (Resolved v, s)
      | (Inl e, s) \<Rightarrow>
          (case errors h e of
             (ls, r) \<Rightarrow>
               let s' = emit s (Call_errors e # logged ls) in
               (case r of
                  None \<Rightarrow> (Resolved JUndefined, s')
                | Some e' \<Rightarrow> (Rejected e', s'))))"

text \<open>\<open>stopWebConsole()\<close>: \<open>this.webapp && this.webapp.close(); return this\<close>.\<close>

definition stopWebConsole :: "'n host \<Rightarrow> 'n sdk \<Rightarrow> 'n exn option \<times> 'n sdk" where
  "stopWebConsole h s =
     (case webapp s of
        None \<Rightarrow> (None, s)
      | Some w \<Rightarrow>
          (case webapp_close h of
             Some e \<Rightarrow> (Some e, emit s [Call_webapp_close])
           | None \<Rightarrow> (None, emit (s\<lparr>webapp := Some Closed\<rparr>) [Call_webapp_close])))"

text \<open>
  \<open>stop()\<close>: \<open>return this.consumer.close(function(err, res) { return this; })\<close>.
  Without a consumer the property read throws a TypeError. The callback does
  nothing.
\<close>

definition stop :: "'n host \<Rightarrow> 'n sdk \<Rightarrow> 'n promise \<times> 'n sdk" where
  "stop h s =
     (case consumer s of
        None \<Rightarrow> (Rejected TypeError, s)
      | Some c \<Rightarrow>
          (case consumer_close h of
             Some e \<Rightarrow> (Rejected e, emit s [Call_consumer_close])
           | None \<Rightarrow> (Resolved JUndefined, emit (s\<lparr>consumer := Some Closed\<rparr>) [Call_consumer_close])))"

text \<open>\<open>shutdown()\<close>: \<open>await this.stopWebConsole().stop(); return this\<close>.\<close>

definition shutdown :: "'n host \<Rightarrow> 'n sdk \<Rightarrow> 'n promise \<times> 'n sdk" where
  "shutdown h s =
     (case stopWebConsole h s of
        (Some e, s1) \<Rightarrow> (Rejected e, s1)
      | (None, s1) \<Rightarrow>
          (case stop h s1 of
             (Rejected e, s2) \<Rightarrow> (Rejected e, s2)
           | (r, s2) \<Rightarrow> (ResolvedThis, s2)))"

text \<open>
  \<open>__produce(topic, data)\<close>. The \<open>try\<close> block covers the call of \<open>producer.send\<close>;
  it has been left when the producer calls the callback.
\<close>

definition produce_try :: "'n host \<Rightarrow> 'n sdk \<Rightarrow> jsstring \<Rightarrow> 'n jsval \<Rightarrow> ('n exn + 'n jsval) \<times> 'n sdk" where
  "produce_try h s topic data =
     (case producer s of
        None \<Rightarrow> (Inl TypeError, s)
      | Some p \<Rightarrow>
          (case producer_send h topic data of
             SendThrows e \<Rightarrow> (Inl e, emit s [Call_send topic data])
           | SendReturns v None \<Rightarrow> (Inr v, emit s [Call_send topic data])
           | SendReturns v (Some report) \<Rightarrow>
               (Inr v, emit (s\<lparr>callbacks := callbacks s @ [report]\<rparr>) [Call_send topic data])))"

definition produce :: "'n host \<Rightarrow> 'n sdk \<Rightarrow> jsstring \<Rightarrow> 'n jsval \<Rightarrow> 'n promise \<times> 'n sdk" where
  "produce h s topic data = try_catch h (produce_try h s topic data)"

text \<open>
  The callback handed to \<open>producer.send\<close>:
  \<^verbatim>\<open>function(err, res) { if (err) throw Error(err); self.logger.debug('Produced to', res); return self; }\<close>
  \<open>Some\<close> is what it throws, into the producer that called it.
\<close>

definition produce_callback :: "'n host \<Rightarrow> 'n sdk \<Rightarrow> 'n jsval \<times> 'n jsval \<Rightarrow> 'n exn option \<times> 'n sdk" where
  "produce_callback h s report =
     (case report of
        (err, res) \<Rightarrow>
          if ToBoolean (NumberToBoolean h) err then (Some (ErrorOf err), s)
          else (None, emit s [Logged LDebug [Txt ''Produced to'', Val res]]))"

text \<open>\<open>serialize(data)\<close> is \<open>JSON.stringify(data)\<close>, \<open>deserialize(data)\<close> is \<open>JSON.parse(data)\<close>.\<close>

definition serialize :: "'n host \<Rightarrow> 'n jsval \<Rightarrow> 'n jsval" where
  "serialize h data =
     (case JSON_stringify (NumberIsFinite h) (NumberToString h) data of
        None \<Rightarrow> JUndefined
      | Some t \<Rightarrow> JStr t)"

definition deserialize :: "'n host \<Rightarrow> jsstring \<Rightarrow> 'n exn + 'n jsval" where
  "deserialize h data = JSON_parse (StringToNumber h) data"

text \<open>
  The message of a skipped block:
  \<^verbatim>\<open>(data && data.hash) ? `Skipping invalid block ${data.hash}.` : 'Skipping an invalid block.'\<close>
  The template converts \<open>data.hash\<close> to a string, which can throw.
\<close>

definition invalidMsg :: "('n \<Rightarrow> bool) \<Rightarrow> ('n \<Rightarrow> jsstring) \<Rightarrow> 'n jsval \<Rightarrow> 'n exn + 'n log_part list" where
  "invalidMsg nb nts data =
     (case (if ToBoolean nb data then get_hash data else Inr data) of
        Inl e \<Rightarrow> Inl e
      | Inr t \<Rightarrow>
          if ToBoolean nb t then
            (case get_hash data of
               Inl e \<Rightarrow> Inl e
             | Inr hash \<Rightarrow>
                 (case ToString nts hash of
                    Inl e \<Rightarrow> Inl e
                  | Inr text \<Rightarrow> Inr [Txt ''Skipping invalid block '', Val (JStr text), Txt ''.'']))
          else Inr [Txt ''Skipping an invalid block.''])"

text \<open>
  The body of the \<open>try\<close> block of \<open>addBlockToLedger(data)\<close>: \<open>Inl\<close> is what it throws,
  \<open>Inr\<close> what it returns. The templates \<^verbatim>\<open>`Received block ${data.hash}.`\<close> and
  \<^verbatim>\<open>`Added new block ${data.hash}.`\<close> convert \<open>data.hash\<close> to a string; the first
  conversion stands before the call of \<open>AddBlock\<close>, and what it throws leaves the
  \<open>try\<close> block there. The second converts the same value, with the same result.
\<close>

definition addBlockToLedger_try ::
  "'n host \<Rightarrow> 'n sdk \<Rightarrow> 'n jsval \<Rightarrow> ('n exn + 'n jsval) \<times> 'n sdk" where
  "addBlockToLedger_try h s data =
     (case isValidBlock h data of
        (ls, r) \<Rightarrow>
          let s1 = emit s (Call_isValidBlock data # logged ls) in
          (case r of
             Inl e \<Rightarrow> (Inl e, s1)
           | Inr valid \<Rightarrow>
               if \<not> ToBoolean (NumberToBoolean h) valid then
                 (case invalidMsg (NumberToBoolean h) (NumberToString h) data of
                    Inl e \<Rightarrow> (Inl e, s1)
                  | Inr m \<Rightarrow> (Inr (JBool False), emit s1 [Logged LError m]))
               else
                 (case get_hash data of
                    Inl e \<Rightarrow> (Inl e, s1)
                  | Inr hash \<Rightarrow>
                      (case ToString (NumberToString h) hash of
                         Inl e \<Rightarrow> (Inl e, s1)
                       | Inr text \<Rightarrow>
                           let s2 = emit s1 [Logged LDebug [Txt ''Received block '', Val (JStr text), Txt ''.'']] in
                           (case db s2 of
                              None \<Rightarrow> (Inl TypeError, s2)
                            | Some d \<Rightarrow>
                                (case AddBlock h data (Ledger d) of
                                   (l', failed) \<Rightarrow>
                                     let s3 = emit (s2\<lparr>db := Some (d\<lparr>Ledger := l'\<rparr>)\<rparr>) [Call_AddBlock data] in
                                     (case failed of
                                        Some e \<Rightarrow> (Inl e, s3)
                                      | None \<Rightarrow>
                                          (Inr hash,
                                           emit s3
                                             [Logged LInfo [Txt ''Added new block '', Val (JStr text), Txt ''.''],
                                              Logged LDebug [Txt ''Added new block'', Val data]]))))))))"

definition addBlockToLedger :: "'n host \<Rightarrow> 'n sdk \<Rightarrow> 'n jsval \<Rightarrow> 'n promise \<times> 'n sdk" where
  "addBlockToLedger h s data = try_catch h (addBlockToLedger_try h s data)"

text \<open>
  \<open>onMessage(topic, data)\<close>: the payload is deserialized first; then the \<open>switch\<close>
  on the topic, and under \<open>topics.pending\<close> the test of the role.
\<close>

definition onMessage :: "'n host \<Rightarrow> 'n sdk \<Rightarrow> jsstring \<Rightarrow> jsstring \<Rightarrow> 'n promise \<times> 'n sdk" where
  "onMessage h s topic data =
     (case deserialize h data of
        Inl e \<Rightarrow> (Rejected e, s)
      | Inr deserialized \<Rightarrow>
          if topic = pending s then
            (if hasRole s (js ''peer'') then addBlockToLedger h s deserialized
             else (Resolved (JBool False), s))
          else (Rejected (Error ''Received message of an invalid topic''), s))"

text \<open>
  The body of the \<open>try\<close> block of \<open>sendNewBlock(data)\<close>. The template of the
  line it logs interpolates \<open>newblock.hash\<close> and \<open>this.organization\<close>; the line
  holds the hash as \<open>generateNextBlock\<close> gave it, which is what the template
  holds when that hash is a string.
\<close>

definition sendNewBlock_try ::
  "'n host \<Rightarrow> 'n sdk \<Rightarrow> 'n jsval \<Rightarrow> ('n exn + 'n jsval) \<times> 'n sdk" where
  "sendNewBlock_try h s data =
     (let serializedData = serialize h data;
          s1 = emit s [Call_generateNextBlock (organization s) serializedData] in
      case generateNextBlock h (organization s) serializedData of
        Inl e \<Rightarrow> (Inl e, s1)
      | Inr newblock \<Rightarrow>
          (case get_hash newblock of
             Inl e \<Rightarrow> (Inl e, s1)
           | Inr hash \<Rightarrow>
               let s2 = emit s1
                     [Logged LInfo
                        [Txt ''Building a block for the transaction '', Val hash,
                         Txt '' sended by organization '', Val (JStr (organization s)), Txt ''.''],
                      Logged LDebug [Txt ''Built new block'', Val newblock]] in
               (case produce h s2 (pending s) (serialize h newblock) of
                  (Rejected e, s3) \<Rightarrow> (Inl e, s3)
                | (r, s3) \<Rightarrow> (Inr hash, s3))))"

definition sendNewBlock :: "'n host \<Rightarrow> 'n sdk \<Rightarrow> 'n jsval \<Rightarrow> 'n promise \<times> 'n sdk" where
  "sendNewBlock h s data = try_catch h (sendNewBlock_try h s data)"

section \<open>The Ledger Store and the Block Validator\<close>

text \<open>
  Modelled from the spec: the Ledger Store's \<open>append\<close> and \<open>head\<close> (section 4.3).
  \<^verbatim>\<open>lib/database\<close>, which implements \<open>db.Ledger.AddBlock\<close>, is not among the
  sources. The ledger is the sequence of accepted blocks, keyed by \<open>hash\<close>: when a
  block with the same hash is already there the append is a no-op and answers
  \<open>AlreadyPresent\<close>; otherwise the block becomes the new head and the answer is
  \<open>Appended\<close>.
\<close>

datatype AppendResult = Appended | AlreadyPresent

definition Ledger_has :: "'n jsval list \<Rightarrow> 'n jsval \<Rightarrow> bool" where
  "Ledger_has l b = (get_hash b \<in> set (map get_hash l))"

definition Ledger_append :: "'n jsval \<Rightarrow> 'n jsval list \<Rightarrow> AppendResult \<times> 'n jsval list" where
  "Ledger_append b l = (if Ledger_has l b then (AlreadyPresent, l) else (Appended, l @ [b]))"


text \<open>The own property \<open>k\<close> of a block, \<open>undefined\<close> when there is none.\<close>

fun field :: "'n jsval \<Rightarrow> jsstring \<Rightarrow> 'n jsval" where
  "field (JObj ps) k = (case map_of ps k of None \<Rightarrow> JUndefined | Some v \<Rightarrow> v)"
| "field v k = JUndefined"



text \<open>
  Modelled from the spec: the expected shape of a block (section 4.2, check 1), a
  non-empty organization and a well-formed hash.
\<close>

definition nonempty_string :: "'n jsval \<Rightarrow> bool" where
  "nonempty_string v = (case v of JStr s \<Rightarrow> s \<noteq> [] | _ \<Rightarrow> False)"

definition well_shaped :: "'n jsval \<Rightarrow> bool" where
  "well_shaped b =
     (nonempty_string (field b (js ''organization'')) \<and> nonempty_string (field b (js ''hash'')))"

text \<open>
  Modelled from the spec: structural completeness (section 4.2, check 1). The
  required fields are the five of the data model (section 3).
\<close>

definition structural_completeness :: "'n jsval \<Rightarrow> bool" where
  "structural_completeness b =
     (field b (js ''payload'') \<noteq> JUndefined \<and> field b (js ''previousHash'') \<noteq> JUndefined \<and>
      field b (js ''timestamp'') \<noteq> JUndefined \<and> well_shaped b)"

text \<open>
  Modelled from the spec: hash integrity (section 4.2, check 2). The digest is
  computed over the organization, the payload, the previous hash and the
  timestamp (section 3); a block whose fields are not of the kinds a digest is
  computed over has no intact hash.
\<close>

definition hash_integrity ::
  "(jsstring \<times> jsstring \<times> jsstring \<times> 'n \<Rightarrow> jsstring) \<Rightarrow> 'n jsval \<Rightarrow> bool" where
  "hash_integrity digest b =
     (case (field b (js ''organization''), field b (js ''payload''),
            field b (js ''previousHash''), field b (js ''timestamp'')) of
        (JStr org, JStr payload, JStr previousHash, JNum timestamp) \<Rightarrow>
          field b (js ''hash'') = JStr (digest (org, payload, previousHash, timestamp))
      | _ \<Rightarrow> False)"



section \<open>A node to run the methods on\<close>

text \<open>
  The error handler of the services, \<^verbatim>\<open>lib/services/errors.js\<close>:
  \<^verbatim>\<open>(ctx, err) => { ctx.broker.logger.error(ctx.action && ctx.action.name, err && err.stack); throw err; }\<close>
  It logs one line, the name of the action and the stack of the error, and throws
  the error again. The SDK requires \<^verbatim>\<open>lib/errors\<close>, another module, and hands it
  the logger; the test host takes a handler that behaves as this one does.
\<close>

definition services_errors ::
  "'n jsval \<Rightarrow> 'n exn \<Rightarrow> (log_level \<times> 'n log_part list) list \<times> 'n exn option" where
  "services_errors action_name err = ([(LError, [Val action_name, Txt ''err.stack''])], Some err)"

text \<open>
  A host for concrete runs. Its numbers and their conversions are those of the
  section on numbers. The collaborators are stand-ins: a digest that joins the
  organization and the payload, a block generator that seals a block with it on
  the genesis sentinel and time 0, a validator that checks the shape and the hash
  of a block under that digest, the error handler above, a ledger that is the
  Ledger Store, a producer that reports success to the callback, and closes that
  return.
\<close>

definition toy_digest :: "jsstring \<times> jsstring \<times> jsstring \<times> number \<Rightarrow> jsstring" where
  "toy_digest x = (case x of (org, payload, previousHash, timestamp) \<Rightarrow> js ''#'' @ org @ payload)"

definition toy_block :: "jsstring \<Rightarrow> jsstring \<Rightarrow> jsstring \<Rightarrow> number \<Rightarrow> number jsval" where
  "toy_block org payload previousHash timestamp =
     JObj [(js ''organization'', JStr org),
           (js ''payload'', JStr payload),
           (js ''previousHash'', JStr previousHash),
           (js ''timestamp'', JNum timestamp),
           (js ''hash'', JStr (toy_digest (org, payload, previousHash, timestamp)))]"

definition test_host :: "number host" where
  "test_host =
     \<lparr> NumberToBoolean = Number_toBoolean,
       NumberIsFinite = Number_isFinite,
       NumberToString = Number_toString,
       StringToNumber = StringToNumber_literal,
       isValidBlock = (\<lambda>b. ([], Inr (JBool (well_shaped b \<and> hash_integrity toy_digest b)))),
       generateNextBlock =
         (\<lambda>org serializedData.
            Inr (toy_block org (case serializedData of JStr t \<Rightarrow> t | _ \<Rightarrow> []) (js ''genesis'')
                   (Finite False [] 0))),
       errors = services_errors JUndefined,
       AddBlock = (\<lambda>b l. (snd (Ledger_append b l), None)),
       producer_send = (\<lambda>topic messages. SendReturns JUndefined (Some (JNull, JStr topic))),
       webapp_close = None,
       consumer_close = None \<rparr>"

text \<open>A started peer with an empty ledger, and an orderer.\<close>

definition peer_node :: "number sdk" where
  "peer_node =
     \<lparr> role = js ''peer'', organization = js ''orgA'', pending = js ''pending'',
       db = Some \<lparr> Ledger = [] \<rparr>, webapp = Some Open, consumer = Some Open,
       producer = Some Open, callbacks = [], trace = [] \<rparr>"

definition orderer_node :: "number sdk" where
  "orderer_node = peer_node\<lparr>role := js ''orderer''\<rparr>"

text \<open>
  The first block of organization A, on the genesis sentinel at time 1, and its
  text as it travels on the topic. Two blocks that name it as their parent, at
  time 2: one of organization A and one of organization B.
\<close>

definition block1 :: "number jsval" where
  "block1 = toy_block (js ''orgA'') (js ''P1'') (js ''genesis'') (Finite False [1] 1)"

definition block2a :: "number jsval" where
  "block2a = toy_block (js ''orgA'') (js ''P2'') (js ''#orgAP1'') (Finite False [2] 1)"

definition block2b :: "number jsval" where
  "block2b = toy_block (js ''orgB'') (js ''P2'') (js ''#orgAP1'') (Finite False [2] 1)"

definition quoted :: "string \<Rightarrow> jsstring" where
  "quoted s = 0x22 # js s @ [0x22]"

definition block1_text :: jsstring where
  "block1_text =
     js ''{'' @ quoted ''organization'' @ js '':'' @ quoted ''orgA'' @ js '','' @
     quoted ''payload'' @ js '':'' @ quoted ''P1'' @ js '','' @
     quoted ''previousHash'' @ js '':'' @ quoted ''genesis'' @ js '','' @
     quoted ''timestamp'' @ js '':1,'' @
     quoted ''hash'' @ js '':'' @ quoted ''#orgAP1'' @ js ''}''"

text \<open>
  Two blocks that name the parent \<open>stale\<close>: one with the hash \<open>bogus\<close>, which is
  not the digest of its fields, and one without an organization.
\<close>

definition forged_block :: "number jsval" where
  "forged_block =
     JObj [(js ''organization'', JStr (js ''orgB'')),
           (js ''payload'', JStr (js ''P2'')),
           (js ''previousHash'', JStr (js ''stale'')),
           (js ''timestamp'', JNum (Finite False [2] 1)),
           (js ''hash'', JStr (js ''bogus''))]"

definition anonymous_block :: "number jsval" where
  "anonymous_block =
     JObj [(js ''organization'', JStr []),
           (js ''payload'', JStr (js ''P2'')),
           (js ''previousHash'', JStr (js ''stale'')),
           (js ''timestamp'', JNum (Finite False [2] 1)),
           (js ''hash'', JStr (js ''#P2''))]"





definition close_fails :: "number exn" where
  "close_fails = Thrown (JStr (js ''close failed''))"

definition failing_close_host :: "number host" where
  "failing_close_host = test_host\<lparr>webapp_close := Some close_fails\<rparr>"

definition failing_consumer_host :: "number host" where
  "failing_consumer_host = test_host\<lparr>consumer_close := Some close_fails\<rparr>"

definition failing_send_host :: "number host" where
  "failing_send_host =
     test_host\<lparr>producer_send :=
       (\<lambda>topic messages. SendReturns JUndefined (Some (JStr (js ''BrokerNotAvailableError''), JUndefined)))\<rparr>"

text \<open>
  A value with a fraction, a zero, a negative integer, two numbers in exponent
  notation, and an object with an array index among its names; and its text,
  \<^verbatim>\<open>[1.5,0,-12,1e+21,1.5e-7,{"1":true,"a":"x"}]\<close>.
\<close>

definition sample_value :: "number jsval" where
  "sample_value =
     JArr [JNum (Finite False [1, 5] 1), JNum (Finite False [] 0), JNum (Finite True [1, 2] 2),
           JNum (Finite False [1] 22), JNum (Finite False [1, 5] (- 6)),
           JObj [(js ''1'', JBool True), (js ''a'', JStr (js ''x''))]]"

definition sample_text :: jsstring where
  "sample_text =
     js ''[1.5,0,-12,1e+21,1.5e-7,{'' @ quoted ''1'' @ js '':true,'' @ quoted ''a'' @ js '':'' @
     quoted ''x'' @ js ''}]''"

section \<open>Properties\<close>


lemma ToString_throws:
  "ToString nts v = Inl e \<Longrightarrow> e = TypeError"
  "join_elements nts vs = Inl e \<Longrightarrow> e = TypeError"
  by (induction nts v and nts vs rule: ToString_join_elements.induct)
     (auto split: sum.splits if_splits)


lemma invalidMsg_hash:
  assumes "ToBoolean nb data" and "get_hash data = Inr hash" and "ToBoolean nb hash"
  shows "invalidMsg nb nts data =
           (case ToString nts hash of
              Inl e \<Rightarrow> Inl e
            | Inr text \<Rightarrow> Inr [Txt ''Skipping invalid block '', Val (JStr text), Txt ''.''])"
  using assms by (simp add: invalidMsg_def)

lemma new_events_emit [simp]: "new_events s (emit s evs) = evs"
  by (simp add: new_events_def emit_def)

lemma emit_emit: "emit (emit s a) b = emit s (a @ b)"
  by (simp add: emit_def)

lemma db_emit [simp]: "db (emit s evs) = db s"
  by (simp add: emit_def)

subsection \<open>Strings survive quoting\<close>

lemma unat_unit: "n < 65536 \<Longrightarrow> unat (of_nat n :: code_unit) = n"
  by (simp add: unat_of_nat)

lemma hex_value_hex_digit: "d < 16 \<Longrightarrow> hex_value (hex_digit d) = Some d"
proof (cases "d < 10")
  case True
  assume "d < 16"
  have "unat (of_nat (48 + d) :: code_unit) = 48 + d"
    using True by (intro unat_unit) simp
  then show ?thesis
    using True unfolding hex_value_def hex_digit_def word_le_nat_alt
    by simp
next
  case False
  assume "d < 16"
  then have "unat (of_nat (87 + d) :: code_unit) = 87 + d"
    by (intro unat_unit) simp
  then show ?thesis
    using False \<open>d < 16\<close> unfolding hex_value_def hex_digit_def word_le_nat_alt
    by simp
qed

lemma hex4_value:
  "((n div 4096 * 16 + n div 256 mod 16) * 16 + n div 16 mod 16) * 16 + n mod 16 = (n::nat)"
proof -
  have a: "n div 4096 = n div 256 div 16" and b: "n div 256 = n div 16 div 16"
    by (simp_all add: div_mult2_eq [symmetric])
  have "n div 4096 * 16 + n div 256 mod 16 = n div 256"
    unfolding a by simp
  moreover have "n div 256 * 16 + n div 16 mod 16 = n div 16"
    unfolding b by simp
  ultimately show ?thesis
    by simp
qed

lemma scan_unicode_escape:
  "scan_string (unicode_escape c @ r) = unit_then c (scan_string r)"
proof -
  have "unat c < 65536"
    using unsigned_less [of c, where ?'a = nat] by simp
  then have d: "unat c div 4096 < 16"
    by simp
  have v: "of_nat (((unat c div 4096 * 16 + unat c div 256 mod 16) * 16 + unat c div 16 mod 16) * 16
            + unat c mod 16) = c"
    unfolding hex4_value by simp
  show ?thesis
    unfolding unicode_escape_def
    using v by (simp add: hex_value_hex_digit d)
qed

lemma scan_verbatim:
  "c \<noteq> 0x22 \<Longrightarrow> c \<noteq> 0x5C \<Longrightarrow> \<not> c < 0x20 \<Longrightarrow> scan_string (c # r) = unit_then c (scan_string r)"
  by simp

lemma scan_quote_unit:
  "scan_string (quote_unit c @ r) = unit_then c (scan_string r)"
  unfolding quote_unit_def
  by (auto simp: scan_unicode_escape unescape_def simp del: scan_string.simps)
     (simp_all add: unescape_def)

lemma surrogate_verbatim:
  "is_high_surrogate c \<or> is_low_surrogate c \<Longrightarrow> c \<noteq> 0x22 \<and> c \<noteq> 0x5C \<and> \<not> c < 0x20"
  unfolding is_high_surrogate_def is_low_surrogate_def
  by (auto simp: word_le_nat_alt word_less_nat_alt)

lemma scan_quote_units:
  "scan_string (quote_units s @ 0x22 # rest) = Some (s, rest)"
proof (induction s rule: quote_units.induct)
  case 1
  then show ?case by simp
next
  case (2 c)
  show ?case
    using scan_quote_unit [of c "0x22 # rest"] by (simp add: unit_then_def)
next
  case (3 c d cs)
  show ?case
  proof (cases "is_high_surrogate c \<and> is_low_surrogate d")
    case True
    then have "scan_string (c # d # quote_units cs @ 0x22 # rest)
        = unit_then c (unit_then d (scan_string (quote_units cs @ 0x22 # rest)))"
      using surrogate_verbatim [of c] surrogate_verbatim [of d]
      by (simp del: scan_string.simps add: scan_verbatim)
    then show ?thesis
      using True 3 by (simp add: unit_then_def)
  next
    case False
    then show ?thesis
      using 3 scan_quote_unit [of c "quote_units (d # cs) @ 0x22 # rest"]
      by (simp add: unit_then_def del: quote_units.simps(3)) (simp add: False)
  qed
qed

subsection \<open>Numbers are read whole\<close>

lemma stops_simps [simp]: "stops []" "stops (0x2C # r)" "stops (0x5D # r)" "stops (0x7D # r)"
  by (simp_all add: stops_def)

lemma digits_stable:
  "stops rest \<Longrightarrow> takeWhile is_digit (r @ rest) = takeWhile is_digit r"
  "stops rest \<Longrightarrow> dropWhile is_digit (r @ rest) = dropWhile is_digit r @ rest"
  by (induction r) (auto simp: stops_def is_digit_def split: list.splits)

lemma scan_int_stable:
  "scan_int cs = Some (i, r) \<Longrightarrow> stops rest \<Longrightarrow> scan_int (cs @ rest) = Some (i, r @ rest)"
  by (auto simp: scan_int_def digits_stable split: list.splits if_splits)

lemma scan_frac_stable:
  "scan_frac cs = Some (f, r) \<Longrightarrow> stops rest \<Longrightarrow> scan_frac (cs @ rest) = Some (f, r @ rest)"
  by (auto simp: scan_frac_def digits_stable stops_def split: list.splits if_splits)

lemma scan_exp_stable:
  "scan_exp cs = Some (e, r) \<Longrightarrow> stops rest \<Longrightarrow> scan_exp (cs @ rest) = Some (e, r @ rest)"
  by (auto simp: scan_exp_def scan_sign_def digits_stable stops_def split: list.splits if_splits)

lemma scan_number_stable:
  assumes "scan_number cs = Some (lit, r)" and "stops rest"
  shows "scan_number (cs @ rest) = Some (lit, r @ rest)"
proof -
  obtain m r0 where m: "scan_minus cs = (m, r0)"
    by (cases "scan_minus cs")
  obtain i r1 where i: "scan_int r0 = Some (i, r1)"
    using assms(1) m by (auto simp: scan_number_def split: option.splits)
  obtain f r2 where f: "scan_frac r1 = Some (f, r2)"
    using assms(1) m i by (auto simp: scan_number_def split: option.splits)
  obtain e r3 where e: "scan_exp r2 = Some (e, r3)"
    using assms(1) m i f by (auto simp: scan_number_def split: option.splits)
  have res: "lit = m @ i @ f @ e" "r = r3"
    using assms(1) m i f e by (auto simp: scan_number_def)
  have "r0 \<noteq> []"
    using i by (auto simp: scan_int_def)
  then have "cs \<noteq> []"
    using m by (auto simp: scan_minus_def split: list.splits)
  then have m': "scan_minus (cs @ rest) = (m, r0 @ rest)"
    using m by (auto simp: scan_minus_def split: list.splits if_splits)
  show ?thesis
    using m' scan_int_stable [OF i assms(2)] scan_frac_stable [OF f assms(2)]
      scan_exp_stable [OF e assms(2)] res
    by (simp add: scan_number_def)
qed

lemma number_start:
  assumes "scan_number t = Some (lit, r)"
  obtains c cs where "t = c # cs" "c = 0x2D \<or> is_digit c"
  using assms
  by (auto simp: scan_number_def scan_minus_def scan_int_def is_digit_def
      split: list.splits if_splits option.splits)

lemma number_start_dispatch:
  "c = 0x2D \<or> is_digit c \<Longrightarrow>
     \<not> is_ws c \<and> c \<noteq> 0x7B \<and> c \<noteq> 0x7D \<and> c \<noteq> 0x5B \<and> c \<noteq> 0x5D \<and> c \<noteq> 0x3A \<and> c \<noteq> 0x2C \<and> c \<noteq> 0x22"
  by (auto simp: is_digit_def is_ws_def)

subsection \<open>The lexer reads what the printer writes\<close>

lemma lex_number:
  assumes "number_literal t" and "stops rest"
  shows "lex (t @ rest) = token_then (TNumber t) (lex rest)"
proof -
  have s: "scan_number (t @ rest) = Some (t, rest)"
    using scan_number_stable [of t t "[]" rest] assms by (simp add: number_literal_def)
  obtain c cs where t: "t = c # cs" and c: "c = 0x2D \<or> is_digit c"
    using assms(1) number_start unfolding number_literal_def by blast
  show ?thesis
    using s c number_start_dispatch [OF c] unfolding t by simp
qed

lemma lex_string:
  "lex (QuoteJSONString s @ rest) = token_then (TString s) (lex rest)"
  by (simp add: QuoteJSONString_def scan_quote_units is_ws_def)

lemma lex_null: "lex (js ''null'' @ rest) = token_then TNull (lex rest)"
  by (simp add: js_def is_ws_def is_digit_def)

lemma lex_true: "lex (js ''true'' @ rest) = token_then TTrue (lex rest)"
  by (simp add: js_def is_ws_def is_digit_def)

lemma lex_false: "lex (js ''false'' @ rest) = token_then TFalse (lex rest)"
  by (simp add: js_def is_ws_def is_digit_def)

lemma lex_punct:
  "lex (0x7B # r) = token_then TLBrace (lex r)"
  "lex (0x7D # r) = token_then TRBrace (lex r)"
  "lex (0x5B # r) = token_then TLBracket (lex r)"
  "lex (0x5D # r) = token_then TRBracket (lex r)"
  "lex (0x3A # r) = token_then TColon (lex r)"
  "lex (0x2C # r) = token_then TComma (lex r)"
  by (simp_all add: is_ws_def)

lemma tokens_then_simps:
  "token_then t r = tokens_then [t] r"
  "tokens_then ts (tokens_then us r) = tokens_then (ts @ us) r"
  "tokens_then [] r = r"
  by (auto simp: token_then_def tokens_then_def split: option.splits)

lemma stringify_representable:
  "representable fin nts stn v \<Longrightarrow> \<exists>t. JSON_stringify fin nts v = Some t"
  by (cases v) simp_all

lemma lex_stringify:
  fixes v :: "'n jsval" and vs :: "'n jsval list" and ps :: "(jsstring \<times> 'n jsval) list"
  shows
  "representable fin nts stn v \<Longrightarrow> stops rest \<Longrightarrow>
     \<exists>t. JSON_stringify fin nts v = Some t \<and> lex (t @ rest) = tokens_then (tokens nts v) (lex rest)"
  and "representable_elements fin nts stn vs \<Longrightarrow> stops rest' \<Longrightarrow> rest' \<noteq> [] \<Longrightarrow>
     lex (commas (stringify_elements fin nts vs) @ rest') = tokens_then (tokens_elements nts vs) (lex rest')"
  and "representable_members fin nts stn ps \<Longrightarrow> stops rest' \<Longrightarrow> rest' \<noteq> [] \<Longrightarrow>
     lex (commas (stringify_members fin nts ps) @ rest') = tokens_then (tokens_members nts ps) (lex rest')"
proof (induction nts v and nts vs and nts ps arbitrary: rest and rest' and rest'
    rule: tokens_tokens_elements_tokens_members.induct)
  case (1 nts)
  then show ?case by simp
next
  case (2 nts)
  then show ?case by (simp add: lex_null tokens_then_simps)
next
  case (3 nts b)
  then show ?case by (simp add: lex_true lex_false tokens_then_simps)
next
  case (4 nts n)
  then show ?case by (simp add: lex_number tokens_then_simps)
next
  case (5 nts s)
  then show ?case by (simp add: lex_string tokens_then_simps)
next
  case (6 nts vs)
  then have "lex (commas (stringify_elements fin nts vs) @ 0x5D # rest)
      = tokens_then (tokens_elements nts vs) (lex (0x5D # rest))"
    by simp
  then show ?case
    by (simp add: lex_punct tokens_then_simps del: lex.simps)
next
  case (7 nts ps)
  then have "lex (commas (stringify_members fin nts ps) @ 0x7D # rest)
      = tokens_then (tokens_members nts ps) (lex (0x7D # rest))"
    by simp
  then show ?case
    by (simp add: lex_punct tokens_then_simps del: lex.simps)
next
  case (8 nts)
  then show ?case by (simp add: tokens_then_simps)
next
  case (9 nts v)
  then obtain t where "JSON_stringify fin nts v = Some t"
    "lex (t @ rest') = tokens_then (tokens nts v) (lex rest')"
    by fastforce
  then show ?case by simp
next
  case (10 nts v w vs)
  have r: "representable fin nts stn v" "representable_elements fin nts stn (w # vs)"
    using "10.prems" by simp_all
  let ?tail = "0x2C # commas (stringify_elements fin nts (w # vs)) @ rest'"
  obtain t where t: "JSON_stringify fin nts v = Some t"
    "lex (t @ ?tail) = tokens_then (tokens nts v) (lex ?tail)"
    using "10.IH"(1) [OF r(1), of ?tail] by auto
  have "lex (commas (stringify_elements fin nts (w # vs)) @ rest')
      = tokens_then (tokens_elements nts (w # vs)) (lex rest')"
    using "10.IH"(2) [OF r(2) "10.prems"(2,3)] .
  then show ?case
    using t by (simp add: lex_punct tokens_then_simps del: lex.simps)
next
  case (11 nts)
  then show ?case by (simp add: tokens_then_simps)
next
  case (12 nts k v)
  then obtain t where "JSON_stringify fin nts v = Some t"
    "lex (t @ rest') = tokens_then (tokens nts v) (lex rest')"
    by fastforce
  then show ?case
    using lex_string [of k "0x3A # t @ rest'"]
    by (simp add: lex_punct tokens_then_simps del: lex.simps)
next
  case (13 nts k v q ps)
  have r: "representable fin nts stn v" "representable_members fin nts stn (q # ps)"
    using "13.prems" by simp_all
  obtain k' v' where q: "q = (k', v')"
    by (cases q)
  let ?tail = "0x2C # commas (stringify_members fin nts (q # ps)) @ rest'"
  obtain t where t: "JSON_stringify fin nts v = Some t"
    "lex (t @ ?tail) = tokens_then (tokens nts v) (lex ?tail)"
    using "13.IH"(1) [OF r(1), of ?tail] by auto
  have m: "lex (commas (stringify_members fin nts (q # ps)) @ rest')
      = tokens_then (tokens_members nts (q # ps)) (lex rest')"
    using "13.IH"(2) [OF r(2) "13.prems"(2,3)] .
  obtain u us where u: "stringify_members fin nts (q # ps) = u # us"
    using r(2) stringify_representable [of fin nts stn v'] unfolding q
    by auto
  show ?case
    using t m u lex_string [of k "0x3A # t @ ?tail"]
    by (simp add: lex_punct tokens_then_simps del: lex.simps)
qed

subsection \<open>The parser reads the tokens of a value\<close>

lemma tokens_start:
  "representable fin nts stn v \<Longrightarrow>
     \<exists>t ts. tokens nts v = t # ts \<and> t \<noteq> TRBracket \<and> t \<noteq> TRBrace"
  by (cases v) auto

lemma tokens_elements_start:
  "representable_elements fin nts stn (v # vs) \<Longrightarrow>
     \<exists>t ts. tokens_elements nts (v # vs) = t # ts \<and> t \<noteq> TRBracket"
  using tokens_start [of fin nts stn v] by (cases vs) auto

lemma tokens_members_start:
  "\<exists>ts. tokens_members nts ((k, v) # ps) = TString k # ts"
  by (cases ps) auto

lemma parse_tokens:
  fixes v :: "'n jsval" and vs :: "'n jsval list" and ps :: "(jsstring \<times> 'n jsval) list"
  shows
  "representable fin nts stn v \<Longrightarrow> parse_value stn (tokens nts v @ rest) = Some (v, rest)"
  and "representable_elements fin nts stn vs \<Longrightarrow> vs \<noteq> [] \<Longrightarrow>
     parse_elements stn acc (tokens_elements nts vs @ TRBracket # rest) = Some (JArr (acc @ vs), rest)"
  and "representable_members fin nts stn ps \<Longrightarrow> ps \<noteq> [] \<Longrightarrow>
     parse_members stn acc' (tokens_members nts ps @ TRBrace # rest)
       = Some (JObj (define_properties acc' ps), rest)"
proof (induction nts v and nts vs and nts ps arbitrary: rest and rest acc and rest acc'
    rule: tokens_tokens_elements_tokens_members.induct)
  case (1 nts)
  then show ?case by simp
next
  case (2 nts)
  then show ?case by simp
next
  case (3 nts b)
  then show ?case by simp
next
  case (4 nts n)
  then show ?case by simp
next
  case (5 nts s)
  then show ?case by simp
next
  case (6 nts vs)
  show ?case
  proof (cases vs)
    case Nil
    then show ?thesis by simp
  next
    case (Cons w ws)
    then obtain t ts where t: "tokens_elements nts vs = t # ts" "t \<noteq> TRBracket"
      using "6.prems" tokens_elements_start [of fin nts stn w ws] by auto
    have "parse_elements stn [] (tokens_elements nts vs @ TRBracket # rest) = Some (JArr vs, rest)"
      using "6.IH" "6.prems" Cons by simp
    then show ?thesis
      using t by (simp del: parse_elements.simps)
  qed
next
  case (7 nts ps)
  show ?case
  proof (cases ps)
    case Nil
    then show ?thesis
      using "7.prems" by (simp add: property_order_def)
  next
    case (Cons q qs)
    obtain k v where q: "q = (k, v)"
      by (cases q)
    obtain ts where t: "tokens_members nts ps = TString k # ts"
      using tokens_members_start [of nts k v qs] Cons q by auto
    have "parse_members stn [] (tokens_members nts ps @ TRBrace # rest)
        = Some (JObj (define_properties [] ps), rest)"
      using "7.IH" "7.prems" Cons by simp
    moreover have "define_properties [] ps = ps"
      using "7.prems" by (simp add: property_order_def)
    ultimately show ?thesis
      using t by (simp del: parse_members.simps)
  qed
next
  case (8 nts)
  then show ?case by simp
next
  case (9 nts v)
  then have v: "parse_value stn (tokens nts v @ TRBracket # rest) = Some (v, TRBracket # rest)"
    by simp
  obtain t ts where "tokens nts v = t # ts"
    using "9.prems" tokens_start [of fin nts stn v] by auto
  then show ?case
    using v by simp
next
  case (10 nts v w vs)
  let ?tail = "TComma # tokens_elements nts (w # vs) @ TRBracket # rest"
  have v: "parse_value stn (tokens nts v @ ?tail) = Some (v, ?tail)"
    using "10.IH"(1) "10.prems" by simp
  have tl: "parse_elements stn (acc @ [v]) (tokens_elements nts (w # vs) @ TRBracket # rest)
      = Some (JArr ((acc @ [v]) @ w # vs), rest)"
    using "10.IH"(2) "10.prems" by simp
  obtain t ts where "tokens nts v = t # ts"
    using "10.prems" tokens_start [of fin nts stn v] by auto
  then show ?case
    using v tl by (simp del: parse_elements.simps tokens_elements.simps
        add: parse_elements.simps [of stn acc] tokens_elements.simps(3))
next
  case (11 nts)
  then show ?case by simp
next
  case (12 nts k v)
  then have v: "parse_value stn (tokens nts v @ TRBrace # rest) = Some (v, TRBrace # rest)"
    by simp
  obtain t ts where "tokens nts v = t # ts"
    using "12.prems" tokens_start [of fin nts stn v] by auto
  then show ?case
    using v by (simp add: define_properties_def)
next
  case (13 nts k v q ps)
  let ?tail = "TComma # tokens_members nts (q # ps) @ TRBrace # rest"
  have v: "parse_value stn (tokens nts v @ ?tail) = Some (v, ?tail)"
    using "13.IH"(1) "13.prems" by simp
  have tl: "parse_members stn (define_property k v acc') (tokens_members nts (q # ps) @ TRBrace # rest)
      = Some (JObj (define_properties (define_property k v acc') (q # ps)), rest)"
    using "13.IH"(2) "13.prems" by simp
  obtain t ts where "tokens nts v = t # ts"
    using "13.prems" tokens_start [of fin nts stn v] by auto
  then show ?case
    using v tl by (simp del: parse_members.simps tokens_members.simps
        add: parse_members.simps [of stn acc'] tokens_members.simps(3) define_properties_def)
qed

lemma JSON_parse_stringify:
  assumes "representable fin nts stn v"
  shows "\<exists>t. JSON_stringify fin nts v = Some t \<and> JSON_parse stn t = Inr v"
proof -
  obtain t where t: "JSON_stringify fin nts v = Some t"
    and l: "lex (t @ []) = tokens_then (tokens nts v) (lex [])"
    using lex_stringify(1) [OF assms, of "[]"] by auto
  have "lex t = Some (tokens nts v)"
    using l by (simp add: tokens_then_def)
  moreover have "parse_value stn (tokens nts v) = Some (v, [])"
    using parse_tokens(1) [OF assms, of "[]"] by simp
  ultimately show ?thesis
    using t by (simp add: JSON_parse_def)
qed

text \<open>
  The test on the lengths in \<open>parse_elements\<close> and \<open>parse_members\<close> never fails: a
  value that parses has consumed a token.
\<close>

lemma parse_consumes:
  "parse_value stn ts = Some (v, r) \<Longrightarrow> length r < length ts"
  "parse_elements stn acc ts = Some (v, r) \<Longrightarrow> length r < length ts"
  "parse_members stn acc' ts = Some (v, r) \<Longrightarrow> length r < length ts"
proof (induction stn ts and stn acc ts and stn acc' ts arbitrary: v r and v r and v r
    rule: parse_value_parse_elements_parse_members.induct)
  case (1 stn)
  then show ?case by simp
next
  case (2 stn t ts)
  show ?case
  proof (cases t)
    case TLBrace
    then show ?thesis
      using 2 by (cases "take 1 ts = [TRBrace]") (auto simp del: parse_members.simps)
  next
    case TLBracket
    then show ?thesis
      using 2 by (cases "take 1 ts = [TRBracket]") (auto simp del: parse_elements.simps)
  qed (use "2.prems" in auto)
next
  case (3 stn acc ts)
  from "3.prems" obtain w r0 where w: "parse_value stn ts = Some (w, r0)" "length r0 < length ts"
    by (auto split: option.splits if_splits)
  show ?case
  proof (cases r0)
    case Nil
    then show ?thesis using "3.prems" w by simp
  next
    case (Cons t r')
    show ?thesis
    proof (cases t)
      case TComma
      then have "parse_elements stn (acc @ [w]) r' = Some (v, r)"
        using "3.prems" w Cons by simp
      then have "length r < length r'"
        using "3.IH"(2) w Cons TComma by blast
      then show ?thesis using w Cons by simp
    next
      case TRBracket
      then show ?thesis using "3.prems" w Cons by auto
    qed (use "3.prems" w Cons in auto)
  qed
next
  case (4 stn acc ts)
  from "4.prems" obtain k ts' where ts: "ts = TString k # TColon # ts'"
    by (auto split: list.splits token.splits)
  from "4.prems" obtain w r0 where w: "parse_value stn ts' = Some (w, r0)" "length r0 < length ts'"
    unfolding ts by (auto split: option.splits if_splits)
  show ?case
  proof (cases r0)
    case Nil
    then show ?thesis using "4.prems" w ts by simp
  next
    case (Cons t r')
    show ?thesis
    proof (cases t)
      case TComma
      then have "parse_members stn (define_property k w acc) r' = Some (v, r)"
        using "4.prems" w Cons ts by simp
      then have "length r < length r'"
        using "4.IH"(2) w Cons TComma ts by blast
      then show ?thesis using w Cons ts by simp
    next
      case TRBrace
      then show ?thesis using "4.prems" w Cons ts by auto
    qed (use "4.prems" w Cons ts in auto)
  qed
qed

subsection \<open>Names in the order of the language\<close>

text \<open>
  Defining properties whose names are distinct and stand in the order of the
  language appends each of them: the list is in property order.
\<close>

lemma insert_index_last:
  "\<forall>q \<in> set ps. \<exists>j. array_index (fst q) = Some j \<and> j < i \<Longrightarrow> insert_index i p ps = ps @ [p]"
  by (induction ps) auto

lemma define_property_last:
  assumes "k \<notin> set (map fst ps)" "\<forall>k' \<in> set (map fst ps). key_before k' k"
  shows "define_property k v ps = ps @ [(k, v)]"
proof (cases "array_index k")
  case None
  then show ?thesis
    using assms(1) by (simp add: define_property_def)
next
  case (Some i)
  have "\<forall>q \<in> set ps. \<exists>j. array_index (fst q) = Some j \<and> j < i"
    using assms(2) Some by (auto simp: key_before_def split: option.splits)
  then show ?thesis
    using assms(1) Some insert_index_last [of ps i "(k, v)"] by (simp add: define_property_def)
qed

lemma define_properties_ordered:
  "own_property_keys (map fst (acc @ ps)) \<Longrightarrow> define_properties acc ps = acc @ ps"
proof (induction ps arbitrary: acc)
  case Nil
  then show ?case by (simp add: define_properties_def)
next
  case (Cons p ps)
  obtain k v where p: "p = (k, v)" by (cases p)
  have "define_property k v acc = acc @ [(k, v)]"
    using Cons.prems p
    by (intro define_property_last) (auto simp: own_property_keys_def sorted_wrt_append)
  moreover have "define_properties (acc @ [(k, v)]) ps = (acc @ [(k, v)]) @ ps"
    using Cons.prems p by (intro Cons.IH) simp
  ultimately show ?case
    using p by (simp add: define_properties_def)
qed

lemma own_property_keys_order:
  "own_property_keys (map fst ps) \<Longrightarrow> property_order ps"
  using define_properties_ordered [of "[]" ps] by (simp add: property_order_def)

subsection \<open>Numbers survive printing\<close>

text \<open>
  What \<open>Number::toString\<close> prints for a finite number is a number literal of
  JSON, and \<open>StringToNumber\<close> reads it back as the same number, the negative zero
  apart: its text is \<open>0\<close>.
\<close>

lemma digit_unit_facts:
  assumes "d < 10"
  shows "is_digit (digit_unit d)" "unit_digit (digit_unit d) = d"
    "digit_unit d \<noteq> 0x2E" "digit_unit d \<noteq> 0x65" "digit_unit d \<noteq> 0x45"
    "digit_unit d \<noteq> 0x2D" "digit_unit d \<noteq> 0x2B"
    "digit_unit d = 0x30 \<longleftrightarrow> d = 0"
proof -
  have u: "unat (digit_unit d) = 48 + d"
    unfolding digit_unit_def using assms by (intro unat_unit) simp
  show "is_digit (digit_unit d)"
    using u assms by (simp add: is_digit_def word_le_nat_alt)
  show "unit_digit (digit_unit d) = d"
    using u by (simp add: unit_digit_def)
  have ne: "digit_unit d \<noteq> c" if "unat c < 48 \<or> 57 < unat c" for c
    using that u assms by auto
  show "digit_unit d \<noteq> 0x2E" "digit_unit d \<noteq> 0x65" "digit_unit d \<noteq> 0x45"
    "digit_unit d \<noteq> 0x2D" "digit_unit d \<noteq> 0x2B"
    by (rule ne, simp)+
  show "digit_unit d = 0x30 \<longleftrightarrow> d = 0"
  proof
    assume "digit_unit d = 0x30"
    then have "unat (digit_unit d) = 48" by simp
    then show "d = 0" using u by simp
  next
    assume "d = 0"
    then show "digit_unit d = 0x30" by (simp add: digit_unit_def)
  qed
qed

lemma digits_text_digits:
  "list_all (\<lambda>d. d < 10) ds \<Longrightarrow> list_all is_digit (digits_text ds)"
  by (induction ds) (simp_all add: digits_text_def digit_unit_facts)

lemma digits_text_back:
  "list_all (\<lambda>d. d < 10) ds \<Longrightarrow> map unit_digit (digits_text ds) = ds"
  by (induction ds) (simp_all add: digits_text_def digit_unit_facts)

lemma zeros_digits: "list_all is_digit (replicate m 0x30)"
  by (induction m) (simp_all add: is_digit_def)

lemma zeros_back: "map unit_digit (replicate m 0x30) = replicate m 0"
  by (induction m) (simp_all add: unit_digit_def)

lemma takeWhile_all: "list_all P xs \<Longrightarrow> (r = [] \<or> \<not> P (hd r)) \<Longrightarrow> takeWhile P (xs @ r) = xs"
  by (induction xs) (auto simp: takeWhile_eq_Nil_iff)

lemma dropWhile_all: "list_all P xs \<Longrightarrow> (r = [] \<or> \<not> P (hd r)) \<Longrightarrow> dropWhile P (xs @ r) = r"
  by (induction xs) (auto simp: dropWhile_eq_self_iff)

lemma digits_value_snoc: "digits_value (cs @ [c]) = 10 * digits_value cs + unit_digit c"
  by (simp add: digits_value_def unit_digit_def)

declare decimal.simps [simp del]

lemma decimal_facts:
  "list_all is_digit (decimal m) \<and> decimal m \<noteq> [] \<and> digits_value (decimal m) = m"
proof (induction m rule: decimal.induct)
  case (1 n)
  show ?case
  proof (cases "n < 10")
    case True
    then have "decimal n = [digit_unit n]"
      by (simp add: decimal.simps [of n] digit_unit_def)
    then show ?thesis
      using True digits_value_snoc [of "[]" "digit_unit n"]
      by (simp add: digit_unit_facts digits_value_def)
  next
    case False
    then have d: "decimal n = decimal (n div 10) @ [digit_unit (n mod 10)]"
      by (simp add: decimal.simps [of n] digit_unit_def)
    have "n mod 10 < 10" by simp
    then show ?thesis
      using False 1 d by (simp add: digits_value_snoc digit_unit_facts)
  qed
qed

lemma not_digit_units [simp]:
  "\<not> is_digit 0x2E" "\<not> is_digit 0x65" "\<not> is_digit 0x2D" "\<not> is_digit 0x2B" "is_digit 0x30"
  by (simp_all add: is_digit_def)

lemma exponent_text_head:
  "exponent_text ex \<noteq> []" "hd (exponent_text ex) = 0x65"
  by (simp_all add: exponent_text_def)

lemma decimal_digits:
  "takeWhile is_digit (decimal m) = decimal m" "dropWhile is_digit (decimal m) = []"
  using decimal_facts [of m] takeWhile_all [of is_digit "decimal m" "[]"]
    dropWhile_all [of is_digit "decimal m" "[]"]
  by simp_all

lemma scan_exp_signed:
  "sg = 0x2D \<or> sg = 0x2B \<Longrightarrow> scan_exp (0x65 # sg # decimal m) = Some (0x65 # sg # decimal m, [])"
  using decimal_facts [of m]
  by (auto simp: scan_exp_def scan_sign_def decimal_digits)

lemma scan_exp_exponent_text:
  "scan_exp (exponent_text ex) = Some (exponent_text ex, [])"
  unfolding exponent_text_def by (rule scan_exp_signed) simp

lemma literal_exponent_text:
  "literal_exponent (exponent_text ex) = ex"
proof -
  have "digits_value (decimal (nat \<bar>ex\<bar>)) = nat \<bar>ex\<bar>"
    using decimal_facts by blast
  then show ?thesis
    unfolding literal_exponent_def exponent_text_def by simp
qed

lemma tail_stops_digits:
  assumes "e = [] \<or> e = exponent_text ex"
  shows "fraction_text fp @ e = [] \<or> \<not> is_digit (hd (fraction_text fp @ e))"
    "e = [] \<or> \<not> is_digit (hd e)"
  using assms by (auto simp: fraction_text_def exponent_text_def)

lemma scan_literal:
  assumes ip: "list_all is_digit ip" "ip \<noteq> []" "ip = [0x30] \<or> hd ip \<noteq> 0x30"
    and fp: "list_all is_digit fp"
    and e: "e = [] \<or> e = exponent_text ex"
  shows "number_literal (sign_text neg @ ip @ fraction_text fp @ e)"
proof -
  let ?t = "ip @ fraction_text fp @ e"
  obtain c ip' where c: "ip = c # ip'"
    using ip(2) by (cases ip) auto
  have cd: "is_digit c" and ipd: "list_all is_digit ip'"
    using ip(1) c by simp_all
  have m: "scan_minus (sign_text neg @ ?t) = (sign_text neg, ?t)"
    using c cd by (auto simp: scan_minus_def sign_text_def)
  have i: "scan_int ?t = Some (ip, fraction_text fp @ e)"
  proof (cases "c = 0x30")
    case True
    then show ?thesis using ip(3) c by (simp add: scan_int_def)
  next
    case False
    then show ?thesis
      using c cd takeWhile_all [OF ipd tail_stops_digits(1) [OF e]]
        dropWhile_all [OF ipd tail_stops_digits(1) [OF e]]
      by (simp add: scan_int_def)
  qed
  have f: "scan_frac (fraction_text fp @ e) = Some (fraction_text fp, e)"
  proof (cases "fp = []")
    case True
    then show ?thesis
      using e by (auto simp: scan_frac_def fraction_text_def exponent_text_def)
  next
    case False
    then show ?thesis
      using takeWhile_all [OF fp tail_stops_digits(2) [OF e]]
        dropWhile_all [OF fp tail_stops_digits(2) [OF e]]
      by (simp add: scan_frac_def fraction_text_def)
  qed
  have x: "scan_exp e = Some (e, [])"
    using e scan_exp_exponent_text by (auto simp: scan_exp_def)
  show ?thesis
    unfolding number_literal_def scan_number_def using m i f x by simp
qed

lemma read_literal:
  assumes ip: "list_all is_digit ip" "ip \<noteq> []"
    and fp: "list_all is_digit fp"
    and e: "e = [] \<and> ex = 0 \<or> e = exponent_text ex \<and> ex \<noteq> 0"
  shows "StringToNumber_literal (sign_text neg @ ip @ fraction_text fp @ e)
           = normalise neg (map unit_digit (ip @ fp)) (int (length ip) + ex)"
proof -
  let ?t = "ip @ fraction_text fp @ e"
  have e': "e = [] \<or> e = exponent_text ex"
    using e by auto
  obtain c ip' where c: "ip = c # ip'"
    using ip(2) by (cases ip) auto
  have cd: "is_digit c"
    using ip(1) c by simp
  then have c2: "c \<noteq> 0x2D"
    by auto
  have neg: "(take 1 ?t = [0x2D]) = False"
    using c c2 by simp
  have tw: "takeWhile is_digit ?t = ip" and dw: "dropWhile is_digit ?t = fraction_text fp @ e"
    using takeWhile_all [OF ip(1) tail_stops_digits(1) [OF e']]
      dropWhile_all [OF ip(1) tail_stops_digits(1) [OF e']] by simp_all
  have le: "literal_exponent e = ex"
    using e literal_exponent_text by (auto simp: literal_exponent_def)
  show ?thesis
  proof (cases "fp = []")
    case True
    then have "take 1 e \<noteq> [0x2E]"
      using e' by (auto simp: exponent_text_def)
    then show ?thesis
      using True le neg tw dw
      by (cases neg) (simp_all add: StringToNumber_literal_def sign_text_def fraction_text_def)
  next
    case False
    have "takeWhile is_digit (fp @ e) = fp" "dropWhile is_digit (fp @ e) = e"
      using takeWhile_all [OF fp tail_stops_digits(2) [OF e']]
        dropWhile_all [OF fp tail_stops_digits(2) [OF e']] by simp_all
    then show ?thesis
      using False le neg tw dw
      by (cases neg) (simp_all add: StringToNumber_literal_def sign_text_def fraction_text_def)
  qed
qed

lemma normalise_padded:
  assumes "ds \<noteq> []" "hd ds \<noteq> 0" "last ds \<noteq> 0"
  shows "normalise neg (replicate a 0 @ ds @ replicate b 0) n = Finite neg ds (n - int a)"
proof -
  let ?z = "\<lambda>d::nat. d = 0"
  have za: "list_all ?z (replicate a 0)" and zb: "list_all ?z (replicate b 0)"
    by (simp_all add: list_all_iff)
  have h: "ds @ replicate b 0 = [] \<or> \<not> ?z (hd (ds @ replicate b 0))"
    using assms by simp
  have l: "rev ds = [] \<or> \<not> ?z (hd (rev ds))"
    using assms by (simp add: hd_rev)
  have d1: "dropWhile ?z (replicate a 0 @ ds @ replicate b 0) = ds @ replicate b 0"
    using dropWhile_all [OF za h] by simp
  have t1: "takeWhile ?z (replicate a 0 @ ds @ replicate b 0) = replicate a 0"
    using takeWhile_all [OF za h] by simp
  have d2: "dropWhile ?z (rev (ds @ replicate b 0)) = rev ds"
    using dropWhile_all [OF zb l] by simp
  show ?thesis
    unfolding normalise_def d1 t1 d2 using assms(1) by simp
qed

lemma unit_digit_zero [simp]: "unit_digit 0x30 = 0"
  by (simp add: unit_digit_def)

lemma digits_text_simps [simp]:
  "digits_text [] = []" "digits_text (d # ds) = digit_unit d # digits_text ds"
  "digits_text (xs @ ys) = digits_text xs @ digits_text ys"
  "length (digits_text ds) = length ds"
  "(digits_text ds = []) = (ds = [])"
  by (simp_all add: digits_text_def)

lemma Number_toString_parts:
  assumes v: "number_value (Finite neg ds n)"
  obtains sg ip fp e ex where
    "Number_toString (Finite neg ds n) = sign_text sg @ ip @ fraction_text fp @ e"
    "list_all is_digit ip" "ip \<noteq> []" "ip = [0x30] \<or> hd ip \<noteq> 0x30" "list_all is_digit fp"
    "e = [] \<and> ex = 0 \<or> e = exponent_text ex \<and> ex \<noteq> 0"
    "Finite neg ds n \<noteq> negative_zero \<Longrightarrow>
       normalise sg (map unit_digit (ip @ fp)) (int (length ip) + ex) = Finite neg ds n"
proof (cases "ds = []")
  case True
  then have "n = 0"
    using v by (simp add: number_value_def)
  then show ?thesis
    using True that [of False "[0x30]" "[]" "[]" 0]
    by (simp add: Number_toString_def sign_text_def fraction_text_def js_def normalise_def
        negative_zero_def)
next
  case False
  then obtain d ds' where ds: "ds = d # ds'"
    by (cases ds) auto
  have all: "list_all (\<lambda>d. d < 10) ds" and hd: "hd ds \<noteq> 0" and last: "last ds \<noteq> 0"
    using v False by (simp_all add: number_value_def)
  have d: "d < 10" "d \<noteq> 0" and all': "list_all (\<lambda>d. d < 10) ds'"
    using all hd ds by simp_all
  have du: "digit_unit d \<noteq> 0x30" "is_digit (digit_unit d)" "unit_digit (digit_unit d) = d"
    using digit_unit_facts [OF d(1)] d(2) by simp_all
  note pad = normalise_padded [OF False hd last]
  let ?k = "int (length ds)"
  consider (whole) "?k \<le> n" "n \<le> 21"
    | (point) "0 < n" "n < ?k" "n \<le> 21"
    | (small) "- 6 < n" "n \<le> 0"
    | (exp1) "\<not> (- 6 < n \<and> n \<le> 21)" "?k = 1"
    | (expk) "\<not> (- 6 < n \<and> n \<le> 21)" "?k \<noteq> 1"
    by linarith
  then show ?thesis
  proof cases
    case whole
    let ?m = "nat (n - ?k)"
    have t: "Number_toString (Finite neg ds n)
        = sign_text neg @ (digits_text ds @ replicate ?m 0x30) @ fraction_text [] @ []"
      using whole False by (simp add: Number_toString_def sign_text_def fraction_text_def)
    have n: "normalise neg (map unit_digit ((digits_text ds @ replicate ?m 0x30) @ []))
               (int (length (digits_text ds @ replicate ?m 0x30)) + 0) = Finite neg ds n"
      using pad [of neg 0 ?m "?k + int ?m"] whole
      by (simp add: digits_text_back [OF all] zeros_back)
    show ?thesis
      using that [of neg, OF t _ _ _ _ _ n] ds du digits_text_digits [OF all'] zeros_digits
      by simp
  next
    case point
    let ?a = "take (nat n) ds" and ?b = "drop (nat n) ds"
    have b: "?b \<noteq> []"
      using point by simp
    obtain m where m: "nat n = Suc m"
      using point by (cases "nat n") auto
    have a: "?a \<noteq> []" "hd ?a = d"
      using ds m by simp_all
    have t: "Number_toString (Finite neg ds n)
        = sign_text neg @ digits_text ?a @ fraction_text (digits_text ?b) @ []"
      using point False b by (simp add: Number_toString_def sign_text_def fraction_text_def)
    have alla: "list_all (\<lambda>d. d < 10) ?a" and allb: "list_all (\<lambda>d. d < 10) ?b"
      using all by (simp_all add: list_all_iff, (meson in_set_takeD in_set_dropD)+)
    have "map unit_digit (digits_text ?a @ digits_text ?b) = ds"
      using digits_text_back [OF alla] digits_text_back [OF allb] by simp
    moreover have "int (length (digits_text ?a)) = n"
      using point by simp
    ultimately have n: "normalise neg (map unit_digit (digits_text ?a @ digits_text ?b))
               (int (length (digits_text ?a)) + 0) = Finite neg ds n"
      using pad [of neg 0 0 n] by simp
    have h: "hd (digits_text ?a) \<noteq> 0x30"
      using a du by (cases ?a) auto
    show ?thesis
      using that [of neg, OF t _ _ _ _ _ n] a h digits_text_digits [OF alla] digits_text_digits [OF allb]
      by simp
  next
    case small
    let ?m = "nat (- n)"
    have t: "Number_toString (Finite neg ds n)
        = sign_text neg @ [0x30] @ fraction_text (replicate ?m 0x30 @ digits_text ds) @ []"
      using small False by (cases ds) (simp_all add: Number_toString_def sign_text_def fraction_text_def)
    have "map unit_digit ([0x30] @ replicate ?m 0x30 @ digits_text ds) = replicate (Suc ?m) 0 @ ds @ replicate 0 0"
      by (simp add: digits_text_back [OF all] zeros_back unit_digit_def)
    then have n: "normalise neg (map unit_digit ([0x30] @ replicate ?m 0x30 @ digits_text ds))
               (int (length [0x30 :: code_unit]) + 0) = Finite neg ds n"
      using pad [of neg "Suc ?m" 0 1] small by simp
    show ?thesis
      using that [of neg, OF t _ _ _ _ _ n] digits_text_digits [OF all] zeros_digits [of ?m]
      by simp
  next
    case exp1
    then have ds': "ds' = []"
      using ds by simp
    have t: "Number_toString (Finite neg ds n)
        = sign_text neg @ digits_text ds @ fraction_text [] @ exponent_text (n - 1)"
      using exp1 False by (auto simp: Number_toString_def sign_text_def fraction_text_def)
    have n: "normalise neg (map unit_digit (digits_text ds @ []))
               (int (length (digits_text ds)) + (n - 1)) = Finite neg ds n"
      using pad [of neg 0 0 n] exp1 by (simp add: digits_text_back [OF all])
    have "n - 1 \<noteq> 0"
      using exp1 by auto
    then show ?thesis
      using that [of neg, OF t _ _ _ _ _ n] ds ds' du
      by simp
  next
    case expk
    then have ds': "ds' \<noteq> []"
      using ds by auto
    have t: "Number_toString (Finite neg ds n)
        = sign_text neg @ [digit_unit d] @ fraction_text (digits_text ds') @ exponent_text (n - 1)"
      using expk False ds ds' by (auto simp: Number_toString_def sign_text_def fraction_text_def)
    have n: "normalise neg (map unit_digit ([digit_unit d] @ digits_text ds'))
               (int (length [digit_unit d]) + (n - 1)) = Finite neg ds n"
      using pad [of neg 0 0 n] ds du by (simp add: digits_text_back [OF all'])
    have "n - 1 \<noteq> 0"
      using expk by auto
    then show ?thesis
      using that [of neg, OF t _ _ _ _ _ n] du digits_text_digits [OF all']
      by simp
  qed
qed

lemma Number_toString_literal:
  assumes "number_value (Finite neg ds n)"
  shows "number_literal (Number_toString (Finite neg ds n))"
proof -
  obtain sg ip fp e ex where
    "Number_toString (Finite neg ds n) = sign_text sg @ ip @ fraction_text fp @ e"
    "list_all is_digit ip" "ip \<noteq> []" "ip = [0x30] \<or> hd ip \<noteq> 0x30" "list_all is_digit fp"
    "e = [] \<and> ex = 0 \<or> e = exponent_text ex \<and> ex \<noteq> 0"
    using Number_toString_parts [OF assms] by metis
  then show ?thesis
    using scan_literal [of ip fp e ex sg] by auto
qed

lemma StringToNumber_Number_toString:
  assumes "number_value (Finite neg ds n)" "Finite neg ds n \<noteq> negative_zero"
  shows "StringToNumber_literal (Number_toString (Finite neg ds n)) = Finite neg ds n"
proof -
  obtain sg ip fp e ex where
    "Number_toString (Finite neg ds n) = sign_text sg @ ip @ fraction_text fp @ e"
    "list_all is_digit ip" "ip \<noteq> []" "list_all is_digit fp"
    "e = [] \<and> ex = 0 \<or> e = exponent_text ex \<and> ex \<noteq> 0"
    "normalise sg (map unit_digit (ip @ fp)) (int (length ip) + ex) = Finite neg ds n"
    using Number_toString_parts [OF assms(1)] assms(2) by metis
  then show ?thesis
    using read_literal [of ip fp e ex sg] by simp
qed

lemma JSON_value_representable:
  "JSON_value v \<Longrightarrow> representable Number_isFinite Number_toString StringToNumber_literal v"
  "JSON_elements vs \<Longrightarrow>
     representable_elements Number_isFinite Number_toString StringToNumber_literal vs"
  "JSON_members ps \<Longrightarrow>
     representable_members Number_isFinite Number_toString StringToNumber_literal ps"
proof (induction v and vs and ps rule: JSON_value_JSON_elements_JSON_members.induct)
  case (4 x)
  then obtain neg ds n where x: "x = Finite neg ds n"
    by (cases x) (simp_all add: Number_isFinite_def)
  show ?case
    using 4 Number_toString_literal [of neg ds n] StringToNumber_Number_toString [of neg ds n]
    unfolding x by simp
next
  case (7 ps)
  then show ?case
    using own_property_keys_order [of ps] by simp
qed simp_all

subsection \<open>Facts about the test node\<close>

lemmas lex_defs = token_then_def unit_then_def scan_number_def scan_minus_def scan_exp_def
  scan_sign_def scan_frac_def scan_int_def is_digit_def js_def is_ws_def hex_value_def unescape_def

lemmas number_defs = Number_toString_def StringToNumber_literal_def normalise_def
  literal_exponent_def exponent_text_def digit_unit_def unit_digit_def digits_value_def decimal.simps

lemmas quote_defs = QuoteJSONString_def quote_unit_def is_high_surrogate_def is_low_surrogate_def

lemma bad_payload: "JSON_parse stn (js ''{'') = Inl SyntaxError"
  by (simp add: JSON_parse_def lex_defs)

lemma block1_parses: "JSON_parse StringToNumber_literal block1_text = Inr block1"
  by (simp add: JSON_parse_def lex_defs block1_text_def quoted_def block1_def toy_block_def
      toy_digest_def define_property_def array_index_def number_defs)

lemma block1_prints: "serialize test_host block1 = JStr block1_text"
  by (simp add: serialize_def block1_def toy_block_def toy_digest_def test_host_def
      block1_text_def quoted_def quote_defs js_def Number_isFinite_def number_defs)

lemma block_facts:
  "get_hash block1 = Inr (JStr (js ''#orgAP1''))"
  "field block1 (js ''hash'') = JStr (js ''#orgAP1'')"
  "well_shaped block1"
  "structural_completeness block1" "structural_completeness block2a" "structural_completeness block2b"
  "structural_completeness forged_block" "\<not> structural_completeness anonymous_block"
  "hash_integrity toy_digest block1" "hash_integrity toy_digest block2a"
  "hash_integrity toy_digest block2b" "\<not> hash_integrity toy_digest forged_block"
  by (simp_all add: block1_def block2a_def block2b_def forged_block_def anonymous_block_def
      toy_block_def toy_digest_def structural_completeness_def well_shaped_def nonempty_string_def
      hash_integrity_def js_def)




lemma sample_prints: "serialize test_host sample_value = JStr sample_text"
  by (simp add: serialize_def sample_value_def sample_text_def test_host_def quoted_def quote_defs
      js_def Number_isFinite_def number_defs)

lemma sample_is_JSON: "JSON_value sample_value"
  by (simp add: sample_value_def Number_isFinite_def number_value_def negative_zero_def
      own_property_keys_def key_before_def array_index_def is_digit_def digits_value_def js_def)

lemma try_catch_Inr [simp]: "try_catch h (Inr v, s) = (Resolved v, s)"
  by (simp add: try_catch_def)

lemma logged_no_calls [simp]: "Call_AddBlock b \<notin> set (logged ls)" "Call_errors e \<notin> set (logged ls)"
  by (auto simp: logged_def)

text \<open>
  What \<open>addBlockToLedger\<close> does with a block the validator accepts: on a node
  with a database, and when the hash of the block has a conversion to a string,
  the block is handed to \<open>db.Ledger.AddBlock\<close>, whatever the ledger holds. The
  method reads neither the ledger nor its head.
\<close>

lemma accepted_block_is_added:
  assumes "isValidBlock h data = (ls, Inr valid)"
    and "ToBoolean (NumberToBoolean h) valid"
    and "get_hash data = Inr hash"
    and "ToString (NumberToString h) hash = Inr text"
    and "db s = Some d"
  shows "Call_AddBlock data \<in> set (new_events s (snd (addBlockToLedger h s data))) \<and>
         db (snd (addBlockToLedger h s data)) = Some (d\<lparr>Ledger := fst (AddBlock h data (Ledger d))\<rparr>)"
  using assms
  by (auto simp: addBlockToLedger_def addBlockToLedger_try_def try_catch_def Let_def emit_def
      new_events_def split: prod.splits option.splits)

text \<open>
  What \<open>addBlockToLedger\<close> does with a block the validator rejects: the message
  is built, and what building it throws goes to \<open>errors\<close>.
\<close>

lemma rejected_block_run:
  assumes "isValidBlock h data = (ls, Inr valid)"
    and "\<not> ToBoolean (NumberToBoolean h) valid"
  shows "addBlockToLedger h s data =
      (case invalidMsg (NumberToBoolean h) (NumberToString h) data of
         Inl e \<Rightarrow> try_catch h (Inl e, emit s (Call_isValidBlock data # logged ls))
       | Inr m \<Rightarrow>
           (Resolved (JBool False), emit (emit s (Call_isValidBlock data # logged ls)) [Logged LError m]))"
  using assms by (simp add: addBlockToLedger_def addBlockToLedger_try_def split: sum.splits)

lemma caught_run:
  "try_catch h (Inl e, emit s evs) =
      ((case snd (errors h e) of None \<Rightarrow> Resolved JUndefined | Some e' \<Rightarrow> Rejected e'),
       emit s (evs @ Call_errors e # logged (fst (errors h e))))"
  by (cases "errors h e") (simp add: try_catch_def emit_emit split: option.splits)

text \<open>
  A rejected block whose \<open>hash\<close> has no conversion to a string: the template of
  the message throws a TypeError, the line about the block is not logged, and the
  method ends as \<open>errors\<close> ends, rejected with what it throws or resolved to
  \<open>undefined\<close> when it returns; never with \<open>false\<close>.
\<close>

lemma unprintable_hash_goes_to_errors:
  assumes "isValidBlock h data = (ls, Inr valid)"
    and "\<not> ToBoolean (NumberToBoolean h) valid"
    and "ToBoolean (NumberToBoolean h) data" and "get_hash data = Inr hash"
    and "ToBoolean (NumberToBoolean h) hash" and "ToString (NumberToString h) hash = Inl e"
  shows "e = TypeError"
    and "addBlockToLedger h s data =
        ((case snd (errors h TypeError) of None \<Rightarrow> Resolved JUndefined | Some e' \<Rightarrow> Rejected e'),
         emit s (Call_isValidBlock data # logged ls @
           Call_errors TypeError # logged (fst (errors h TypeError))))"
    and "fst (addBlockToLedger h s data) \<noteq> Resolved (JBool False)"
proof -
  show e: "e = TypeError"
    using assms(6) ToString_throws(1) by blast
  have "invalidMsg (NumberToBoolean h) (NumberToString h) data = Inl TypeError"
    using invalidMsg_hash [OF assms(3,4,5), of "NumberToString h"] assms(6) e by simp
  then have r: "addBlockToLedger h s data =
      try_catch h (Inl TypeError, emit s (Call_isValidBlock data # logged ls))"
    using rejected_block_run [OF assms(1,2), of s] by simp
  show "addBlockToLedger h s data =
        ((case snd (errors h TypeError) of None \<Rightarrow> Resolved JUndefined | Some e' \<Rightarrow> Rejected e'),
         emit s (Call_isValidBlock data # logged ls @
           Call_errors TypeError # logged (fst (errors h TypeError))))"
    unfolding r caught_run by simp
  then show "fst (addBlockToLedger h s data) \<noteq> Resolved (JBool False)"
    by (simp split: option.splits)
qed

section \<open>The claims\<close>

subsection \<open>C1: chain continuity\<close>




subsection \<open>C2: skipping an invalid block\<close>




subsection \<open>C3: role gating\<close>

text \<open>
  C3, as stated, fails: an orderer that is delivered the payload \<open>{\<close> on the
  pending topic raises a SyntaxError, since \<open>onMessage\<close> deserializes before it
  looks at the role.
\<close>

theorem non_peer_malformed_payload:
  "\<not> hasRole orderer_node (js ''peer'') \<and>
   onMessage test_host orderer_node (pending orderer_node) (js ''{'') = (Rejected SyntaxError, orderer_node)"
proof -
  have "deserialize test_host (js ''{'') = Inl SyntaxError"
    by (simp add: deserialize_def bad_payload)
  then have "onMessage test_host orderer_node (pending orderer_node) (js ''{'')
      = (Rejected SyntaxError, orderer_node)"
    by (simp add: onMessage_def)
  then show ?thesis
    by (simp add: orderer_node_def peer_node_def hasRole_def js_def)
qed

text \<open>
  C3, amended. For every message on the pending topic whose payload parses as
  JSON, a node whose role is not \<open>peer\<close> resolves to \<open>false\<close> and is left as it was:
  no validation, no append, no log line, no error.
\<close>

theorem non_peer_ignores:
  assumes "deserialize h data = Inr v" and "\<not> hasRole s (js ''peer'')" and "topic = pending s"
  shows "onMessage h s topic data = (Resolved (JBool False), s)"
  using assms by (simp add: onMessage_def)

theorem non_peer_ignores_witness:
  "well_shaped block1 \<and>
   onMessage test_host orderer_node (js ''pending'') block1_text = (Resolved (JBool False), orderer_node)"
proof -
  have d: "deserialize test_host block1_text = Inr block1"
    by (simp add: deserialize_def test_host_def block1_parses)
  have r: "\<not> hasRole orderer_node (js ''peer'')"
    by (simp add: orderer_node_def peer_node_def hasRole_def js_def)
  have t: "js ''pending'' = pending orderer_node"
    by (simp add: orderer_node_def peer_node_def)
  show ?thesis
    using non_peer_ignores [OF d r t] block_facts(3) by simp
qed

subsection \<open>C4: unrecognized topics\<close>

text \<open>
  C4, as stated, fails: on a topic other than the pending topic the payload \<open>{\<close>
  raises a SyntaxError and not the error of an invalid topic.
\<close>

theorem other_topic_malformed_payload:
  "js ''other'' \<noteq> pending peer_node \<and>
   onMessage test_host peer_node (js ''other'') (js ''{'') = (Rejected SyntaxError, peer_node) \<and>
   onMessage test_host peer_node (js ''other'') (js ''{'')
     \<noteq> (Rejected (Error ''Received message of an invalid topic''), peer_node)"
proof -
  have "deserialize test_host (js ''{'') = Inl SyntaxError"
    by (simp add: deserialize_def bad_payload)
  then have "onMessage test_host peer_node (js ''other'') (js ''{'') = (Rejected SyntaxError, peer_node)"
    by (simp add: onMessage_def)
  then show ?thesis
    by (simp add: peer_node_def js_def)
qed

text \<open>
  C4, amended. For every message whose topic is not the pending topic the handler
  raises an error and leaves the node as it was (nothing is validated, appended or
  logged): the error \<open>Received message of an invalid topic\<close> when the payload parses
  as JSON, the parse error when it does not.
\<close>

theorem other_topic_rejected:
  assumes "topic \<noteq> pending s"
  shows "onMessage h s topic data =
           (Rejected (case deserialize h data of
                        Inl e \<Rightarrow> e
                      | Inr v \<Rightarrow> Error ''Received message of an invalid topic''), s)"
  using assms by (simp add: onMessage_def split: sum.splits)

theorem other_topic_rejected_witness:
  "onMessage test_host peer_node (js ''other'') block1_text =
     (Rejected (Error ''Received message of an invalid topic''), peer_node)"
proof -
  have d: "deserialize test_host block1_text = Inr block1"
    by (simp add: deserialize_def test_host_def block1_parses)
  have t: "js ''other'' \<noteq> pending peer_node"
    by (simp add: peer_node_def js_def)
  show ?thesis
    using other_topic_rejected [OF t, of test_host block1_text] d by simp
qed

subsection \<open>C5: idempotent append\<close>

text \<open>
  C5. Appending a block whose hash is not yet in the ledger answers \<open>Appended\<close>;
  appending the same block again answers \<open>AlreadyPresent\<close>, and the ledger then
  holds exactly one block with that hash, the block itself. Appending a block whose
  hash is already in the ledger answers \<open>AlreadyPresent\<close> and changes nothing.
\<close>

theorem append_idempotent:
  "(\<not> Ledger_has l b \<longrightarrow>
      Ledger_append b l = (Appended, l @ [b]) \<and>
      Ledger_append b (snd (Ledger_append b l)) = (AlreadyPresent, l @ [b]) \<and>
      filter (\<lambda>x. get_hash x = get_hash b) (l @ [b]) = [b]) \<and>
   (Ledger_has l b \<longrightarrow> Ledger_append b l = (AlreadyPresent, l))"
proof -
  have "\<not> Ledger_has l b \<Longrightarrow> filter (\<lambda>x. get_hash x = get_hash b) l = []"
    unfolding Ledger_has_def filter_empty_conv set_map by (metis imageI)
  then show ?thesis
    by (simp add: Ledger_append_def Ledger_has_def)
qed

theorem append_idempotent_witness:
  "Ledger_append block1 [] = (Appended, [block1]) \<and>
   Ledger_append block1 [block1] = (AlreadyPresent, [block1]) \<and>
   filter (\<lambda>x. get_hash x = get_hash block1) [block1] = [block1]"
proof -
  have fresh: "\<not> Ledger_has [] block1"
    by (simp add: Ledger_has_def)
  have known: "Ledger_has [block1] block1"
    by (simp add: Ledger_has_def)
  show ?thesis
    using append_idempotent [of "[]" block1] append_idempotent [of "[block1]" block1] fresh known
    by simp
qed

subsection \<open>C7: a failed publish\<close>

text \<open>
  C7 holds of the intent and fails on the code. When \<open>producer.send\<close> returns and
  the producer reports the failure to the callback afterwards, \<open>sendNewBlock\<close> has
  already resolved to the hash of the new block, as for a success; \<open>errors\<close> is never
  called; and the callback, run by the producer, throws \<open>Error(err)\<close> where no
  \<open>try\<close> block of the SDK stands around it.
\<close>

theorem publish_failure_escapes:
  assumes "producer s = Some p"
    and "generateNextBlock h (organization s) (serialize h data) = Inr newblock"
    and "get_hash newblock = Inr hash"
    and "producer_send h (pending s) (serialize h newblock) = SendReturns v (Some (err, res))"
    and "ToBoolean (NumberToBoolean h) err"
  shows "fst (sendNewBlock h s data) = Resolved hash \<and>
         callbacks (snd (sendNewBlock h s data)) = callbacks s @ [(err, res)] \<and>
         (\<forall>e. Call_errors e \<notin> set (new_events s (snd (sendNewBlock h s data)))) \<and>
         produce_callback h (snd (sendNewBlock h s data)) (err, res)
           = (Some (ErrorOf err), snd (sendNewBlock h s data))"
proof -
  let ?s1 = "emit s [Call_generateNextBlock (organization s) (serialize h data)]"
  let ?s2 = "emit ?s1
      [Logged LInfo
         [Txt ''Building a block for the transaction '', Val hash,
          Txt '' sended by organization '', Val (JStr (organization s)), Txt ''.''],
       Logged LDebug [Txt ''Built new block'', Val newblock]]"
  let ?s3 = "emit (?s2\<lparr>callbacks := callbacks ?s2 @ [(err, res)]\<rparr>)
      [Call_send (pending s) (serialize h newblock)]"
  have p: "produce h ?s2 (pending s) (serialize h newblock) = (Resolved v, ?s3)"
    using assms(1,4) by (simp add: produce_def produce_try_def emit_def)
  have "sendNewBlock_try h s data = (Inr hash, ?s3)"
    using assms(2,3) p by (simp add: sendNewBlock_try_def Let_def)
  then have run: "sendNewBlock h s data = (Resolved hash, ?s3)"
    by (simp add: sendNewBlock_def)
  show ?thesis
    unfolding run using assms(5)
    by (simp add: produce_callback_def emit_def new_events_def)
qed

theorem publish_failure_escapes_witness:
  "fst (sendNewBlock failing_send_host peer_node (JStr (js ''P1'')))
     = Resolved (JStr (js ''#orgA'' @ quoted ''P1'')) \<and>
   callbacks (snd (sendNewBlock failing_send_host peer_node (JStr (js ''P1''))))
     = [(JStr (js ''BrokerNotAvailableError''), JUndefined)] \<and>
   produce_callback failing_send_host (snd (sendNewBlock failing_send_host peer_node (JStr (js ''P1''))))
       (JStr (js ''BrokerNotAvailableError''), JUndefined)
     = (Some (ErrorOf (JStr (js ''BrokerNotAvailableError''))),
        snd (sendNewBlock failing_send_host peer_node (JStr (js ''P1''))))"
proof -
  let ?nb = "toy_block (js ''orgA'')
      (case serialize failing_send_host (JStr (js ''P1'')) of JStr t \<Rightarrow> t | _ \<Rightarrow> []) (js ''genesis'')
      (Finite False [] 0)"
  have p: "producer peer_node = Some Open" "callbacks peer_node = []" "organization peer_node = js ''orgA''"
    by (simp_all add: peer_node_def)
  have g: "generateNextBlock failing_send_host (organization peer_node)
      (serialize failing_send_host (JStr (js ''P1''))) = Inr ?nb"
    by (simp add: failing_send_host_def test_host_def p)
  have sq: "serialize failing_send_host (JStr (js ''P1'')) = JStr (0x22 # js ''P1'' @ [0x22])"
    by (simp add: serialize_def QuoteJSONString_def quote_unit_def is_high_surrogate_def
        is_low_surrogate_def js_def)
  have hsh: "get_hash ?nb = Inr (JStr (js ''#'' @ js ''orgA'' @ 0x22 # js ''P1'' @ [0x22]))"
    unfolding sq by (simp add: toy_block_def toy_digest_def) (simp add: js_def)
  have snd: "producer_send failing_send_host (pending peer_node) (serialize failing_send_host ?nb)
      = SendReturns JUndefined (Some (JStr (js ''BrokerNotAvailableError''), JUndefined))"
    by (simp add: failing_send_host_def)
  have t: "ToBoolean (NumberToBoolean failing_send_host) (JStr (js ''BrokerNotAvailableError'') :: number jsval)"
    by (simp add: js_def)
  show ?thesis
    using publish_failure_escapes [OF p(1) g hsh snd t] p(2)
    by (simp add: quoted_def) (simp add: js_def)
qed

text \<open>
  The sibling path works: when \<open>producer.send\<close> throws while it is called, the two
  \<open>catch\<close> blocks hand the error to \<open>errors\<close>, and with a handler that throws it
  again \<open>sendNewBlock\<close> is rejected with that error.
\<close>

lemma publish_throw_is_reported:
  assumes "producer s = Some p"
    and "generateNextBlock h (organization s) (serialize h data) = Inr newblock"
    and "get_hash newblock = Inr hash"
    and "producer_send h (pending s) (serialize h newblock) = SendThrows e"
    and "errors h e = (ls, Some e)"
  shows "fst (sendNewBlock h s data) = Rejected e \<and>
         Call_errors e \<in> set (new_events s (snd (sendNewBlock h s data)))"
  using assms
  by (simp add: sendNewBlock_def sendNewBlock_try_def produce_def produce_try_def try_catch_def
      Let_def emit_def new_events_def)

subsection \<open>C8: shutdown\<close>

text \<open>
  C8, as stated, fails: when closing the web console throws, \<open>shutdown\<close> is
  rejected with that error at once, and the consumer is never closed. The producer
  is open as before.
\<close>

theorem shutdown_stops_at_failed_close:
  "shutdown failing_close_host peer_node = (Rejected close_fails, emit peer_node [Call_webapp_close]) \<and>
   consumer (snd (shutdown failing_close_host peer_node)) = Some Open \<and>
   producer (snd (shutdown failing_close_host peer_node)) = Some Open"
  by (simp add: shutdown_def stopWebConsole_def failing_close_host_def test_host_def peer_node_def emit_def)

text \<open>
  C8, amended. \<open>shutdown()\<close> closes the web console, when there is one, and then
  the consumer, in that order, and calls nothing else; it resolves, to the SDK
  itself, when both calls have returned. An error of a step rejects \<open>shutdown\<close>
  there, and the steps after it are skipped: a web console that fails to close
  leaves the consumer untouched, a missing consumer is a TypeError, and a consumer
  that fails to close leaves the web console closed. The producer, the database
  handle and the callbacks the producer still owes are as before: nothing is
  drained. Each case gives the result and the whole node afterwards.
\<close>

theorem shutdown_steps:
  "(webapp s \<noteq> None \<and> webapp_close h = Some e \<longrightarrow>
      shutdown h s = (Rejected e, s\<lparr>trace := trace s @ [Call_webapp_close]\<rparr>)) \<and>
   (webapp s \<noteq> None \<and> webapp_close h = None \<and> consumer s = None \<longrightarrow>
      shutdown h s =
        (Rejected TypeError, s\<lparr>webapp := Some Closed, trace := trace s @ [Call_webapp_close]\<rparr>)) \<and>
   (webapp s \<noteq> None \<and> webapp_close h = None \<and> consumer s \<noteq> None \<and> consumer_close h = Some e \<longrightarrow>
      shutdown h s =
        (Rejected e,
         s\<lparr>webapp := Some Closed, trace := trace s @ [Call_webapp_close, Call_consumer_close]\<rparr>)) \<and>
   (webapp s \<noteq> None \<and> webapp_close h = None \<and> consumer s \<noteq> None \<and> consumer_close h = None \<longrightarrow>
      shutdown h s =
        (ResolvedThis,
         s\<lparr>webapp := Some Closed, consumer := Some Closed,
           trace := trace s @ [Call_webapp_close, Call_consumer_close]\<rparr>)) \<and>
   (webapp s = None \<and> consumer s = None \<longrightarrow> shutdown h s = (Rejected TypeError, s)) \<and>
   (webapp s = None \<and> consumer s \<noteq> None \<and> consumer_close h = Some e \<longrightarrow>
      shutdown h s = (Rejected e, s\<lparr>trace := trace s @ [Call_consumer_close]\<rparr>)) \<and>
   (webapp s = None \<and> consumer s \<noteq> None \<and> consumer_close h = None \<longrightarrow>
      shutdown h s =
        (ResolvedThis, s\<lparr>consumer := Some Closed, trace := trace s @ [Call_consumer_close]\<rparr>)) \<and>
   producer (snd (shutdown h s)) = producer s \<and>
   db (snd (shutdown h s)) = db s \<and>
   callbacks (snd (shutdown h s)) = callbacks s"
  by (auto simp: shutdown_def stopWebConsole_def stop_def emit_def
      split: option.splits prod.splits promise.splits)

theorem shutdown_steps_witness:
  "shutdown test_host peer_node =
     (ResolvedThis,
      peer_node\<lparr>webapp := Some Closed, consumer := Some Closed,
        trace := [Call_webapp_close, Call_consumer_close]\<rparr>) \<and>
   shutdown failing_consumer_host peer_node =
     (Rejected close_fails,
      peer_node\<lparr>webapp := Some Closed, trace := [Call_webapp_close, Call_consumer_close]\<rparr>) \<and>
   shutdown test_host (peer_node\<lparr>webapp := None, consumer := None\<rparr>)
     = (Rejected TypeError, peer_node\<lparr>webapp := None, consumer := None\<rparr>)"
proof -
  have p: "webapp peer_node \<noteq> None" "consumer peer_node \<noteq> None" "trace peer_node = []"
    by (simp_all add: peer_node_def)
  have t: "webapp_close test_host = None" "consumer_close test_host = None"
    by (simp_all add: test_host_def)
  have f: "webapp_close failing_consumer_host = None" "consumer_close failing_consumer_host = Some close_fails"
    by (simp_all add: failing_consumer_host_def test_host_def)
  show ?thesis
    using shutdown_steps [of peer_node test_host] p t
      shutdown_steps [of peer_node failing_consumer_host close_fails] f
      shutdown_steps [of "peer_node\<lparr>webapp := None, consumer := None\<rparr>" test_host]
    by simp
qed

subsection \<open>C9: serialize and deserialize\<close>

text \<open>
  C9. On a host with the numbers of the language, \<open>serialize\<close> gives every value
  of JSON a string, and \<open>deserialize\<close> of that string gives the value back.
\<close>

theorem deserialize_serialize:
  assumes "NumberIsFinite h = Number_isFinite"
    and "NumberToString h = Number_toString"
    and "StringToNumber h = StringToNumber_literal"
    and "JSON_value x"
  shows "\<exists>t. serialize h x = JStr t \<and> deserialize h t = Inr x"
  using JSON_parse_stringify [OF JSON_value_representable(1) [OF assms(4)]] assms(1,2,3)
  by (auto simp: serialize_def deserialize_def)

theorem deserialize_serialize_witness:
  "serialize test_host sample_value = JStr sample_text \<and>
   deserialize test_host sample_text = Inr sample_value"
proof -
  have n: "NumberIsFinite test_host = Number_isFinite" "NumberToString test_host = Number_toString"
    "StringToNumber test_host = StringToNumber_literal"
    by (simp_all add: test_host_def)
  show ?thesis
    using deserialize_serialize [OF n sample_is_JSON] sample_prints by auto
qed

text \<open>
  The negative zero is no value of JSON: \<open>serialize\<close> prints it as \<open>0\<close>, which
  \<open>deserialize\<close> reads as the positive zero.
\<close>

lemma negative_zero_is_printed_as_zero:
  "serialize test_host (JNum negative_zero) = JStr (js ''0'') \<and>
   deserialize test_host (js ''0'') = Inr (JNum (Finite False [] 0))"
  by (simp add: serialize_def deserialize_def test_host_def negative_zero_def Number_isFinite_def
      JSON_parse_def lex_defs number_defs)

subsection \<open>C10: the payload is parsed first\<close>

text \<open>
  C10. \<open>onMessage\<close> deserializes the payload before it looks at the topic or at the
  role: a payload that does not parse raises the parse error whatever the topic
  and whatever the node, and the node is left as it was. The payload \<open>{\<close> is such a
  payload, on an unrecognized topic and on a node that is no peer.
\<close>

theorem onMessage_parses_first:
  assumes "deserialize h data = Inl e"
  shows "onMessage h s topic data = (Rejected e, s)"
  using assms by (simp add: onMessage_def)

theorem onMessage_parses_first_witness:
  "js ''other'' \<noteq> pending orderer_node \<and> \<not> hasRole orderer_node (js ''peer'') \<and>
   onMessage test_host orderer_node (js ''other'') (js ''{'') = (Rejected SyntaxError, orderer_node)"
proof -
  have "deserialize test_host (js ''{'') = Inl SyntaxError"
    by (simp add: deserialize_def bad_payload)
  then have "onMessage test_host orderer_node (js ''other'') (js ''{'') = (Rejected SyntaxError, orderer_node)"
    by (rule onMessage_parses_first)
  then show ?thesis
    by (simp add: orderer_node_def peer_node_def hasRole_def js_def)
qed

end
